(* ===== verification/Prelude.thy ===== *)
theory Prelude
  imports Complex_Main "HOL-Library.Multiset"
begin

text \<open>
  Shared vocabulary of the ViewsBot development: the names of the model's types, the
  character classes of Python's \<open>re\<close> module on the code points the model covers, and
  the generic lemmas on lists, sets and counting that the component theories share.
  A HOL \<open>char\<close> stands for one Python code point below 256 (the Latin-1 range); the
  proxy lists and URLs the program handles are ASCII.
\<close>

named_theorems rx_simps \<open>evaluation rules of the regular-expression matcher\<close>
named_theorems stats_simps \<open>characteristic equations of the dispatch statistics\<close>
named_theorems text_simps \<open>cutting and comparing texts at a separator\<close>

type_synonym proxy = string
type_synonym url = string
type_synonym text_body = string

text \<open>A Python \<open>str\<close> that may hold code points beyond Latin-1 (the bot's message texts):
  a list of Unicode code points; \<open>ustr_of\<close> reads a Latin-1 string as one.\<close>

type_synonym ustr = "nat list"

definition ustr_of :: "string \<Rightarrow> ustr" where
  "ustr_of s = map of_char s"

section \<open>Character classes of Python's re module\<close>

text \<open>\<open>\d\<close> on a str pattern: Unicode decimal digits; below 256 these are 0-9.\<close>

definition is_digit :: "char \<Rightarrow> bool" where
  "is_digit c \<longleftrightarrow> (let n = of_char c :: nat in 48 \<le> n \<and> n \<le> 57)"

text \<open>
  \<open>\w\<close> on a str pattern: \<open>_\<close> and the code points for which \<open>str.isalnum\<close> holds.
  Below 256 these are the ASCII letters and digits, the Latin-1 letters
  (U+00C0-U+00D6, U+00D8-U+00F6, U+00F8-U+00FF, ordinal indicators U+00AA and U+00BA,
  micro sign U+00B5) and the numeric signs U+00B2, U+00B3, U+00B9, U+00BC-U+00BE.
\<close>

definition is_word :: "char \<Rightarrow> bool" where
  "is_word c \<longleftrightarrow>
     (let n = of_char c :: nat in
        (48 \<le> n \<and> n \<le> 57) \<or> (65 \<le> n \<and> n \<le> 90) \<or> n = 95 \<or> (97 \<le> n \<and> n \<le> 122) \<or>
        n = 170 \<or> n = 178 \<or> n = 179 \<or> n = 181 \<or> n = 185 \<or> n = 186 \<or>
        (188 \<le> n \<and> n \<le> 190) \<or> (192 \<le> n \<and> n \<le> 214) \<or> (216 \<le> n \<and> n \<le> 246) \<or>
        248 \<le> n)"

text \<open>A position outside the string (before the start, after the end) is not a word character.\<close>

definition is_word_opt :: "char option \<Rightarrow> bool" where
  "is_word_opt c = (case c of None \<Rightarrow> False | Some x \<Rightarrow> is_word x)"

text \<open>The explicit ASCII class \<open>[a-zA-Z0-9_]\<close>.\<close>

definition is_ascii_word :: "char \<Rightarrow> bool" where
  "is_ascii_word c \<longleftrightarrow>
     (let n = of_char c :: nat in
        (97 \<le> n \<and> n \<le> 122) \<or> (65 \<le> n \<and> n \<le> 90) \<or> (48 \<le> n \<and> n \<le> 57) \<or> n = 95)"

section \<open>Python built-ins the program uses\<close>

text \<open>The exceptions a built-in can raise on the paths the model covers.\<close>

datatype py_error = IndexError | ZeroDivisionError

text \<open>\<open>str.split(sep)\<close> with a one-character separator, over any alphabet: every
  occurrence splits, empty pieces are kept, and the result is never empty.\<close>

fun py_split :: "'a \<Rightarrow> 'a list \<Rightarrow> 'a list list" where
  "py_split c [] = [[]]"
| "py_split c (x # xs) =
     (let r = py_split c xs in if x = c then [] # r else (x # hd r) # tl r)"

text \<open>\<open>xs[i]\<close>: negative indices count from the end; out of range raises IndexError.\<close>

definition py_get :: "'a list \<Rightarrow> int \<Rightarrow> py_error + 'a" where
  "py_get xs i =
     (if - int (length xs) \<le> i \<and> i < int (length xs)
      then Inr (xs ! nat (i mod int (length xs))) else Inl IndexError)"

text \<open>\<open>a / b\<close> on ints: true division (a float in Python, exact here); raises on zero.\<close>

definition py_truediv :: "nat \<Rightarrow> nat \<Rightarrow> py_error + rat" where
  "py_truediv a b = (if b = 0 then Inl ZeroDivisionError else Inr (of_nat a / of_nat b))"

section \<open>Shared lemmas\<close>

lemma py_split_nonempty [simp]: "py_split c s \<noteq> []"
  by (induction s) (auto simp: Let_def)

lemma length_py_split: "length (py_split c s) = Suc (length (filter (\<lambda>x. x = c) s))"
proof (induction s)
  case (Cons x xs)
  then show ?case
    using py_split_nonempty [of c xs] by (cases "py_split c xs") (auto simp: Let_def)
qed simp

lemma py_split_none: "c \<notin> set s \<Longrightarrow> py_split c s = [s]"
  by (induction s) (auto simp: Let_def)

lemma py_split_stop: "c \<notin> set s \<Longrightarrow> py_split c (s @ c # r) = s # py_split c r"
proof (induction s)
  case (Cons x xs)
  then show ?case by (cases "py_split c (xs @ c # r)") (auto simp: Let_def)
qed (simp add: Let_def)

lemma py_truediv_ok [simp]: "0 < b \<Longrightarrow> py_truediv a b = Inr (of_nat a / of_nat b)"
  by (simp add: py_truediv_def)

lemma is_digit_is_word [simp]: "is_digit c \<Longrightarrow> is_word c"
  by (auto simp: is_digit_def is_word_def Let_def)

lemma is_word_opt_simps [simp]:
  "is_word_opt None = False" "is_word_opt (Some c) = is_word c"
  by (simp_all add: is_word_opt_def)

lemma not_digit_punct [simp]:
  "\<not> is_digit CHR ''.''" "\<not> is_digit CHR '':''" "\<not> is_digit CHR ''/''"
  "\<not> is_digit (CHR 0x0A)" "\<not> is_digit CHR '' ''"
  by (simp_all add: is_digit_def)

lemma not_word_punct [simp]:
  "\<not> is_word CHR ''.''" "\<not> is_word CHR '':''" "\<not> is_word CHR ''/''"
  "\<not> is_word (CHR 0x0A)" "\<not> is_word (CHR 0x0D)" "\<not> is_word CHR '' ''"
  by (simp_all add: is_word_def)

text \<open>Splitting a list at the end of its longest prefix in a class.\<close>

lemma takeWhile_append_stop:
  "(\<forall>x\<in>set xs. P x) \<Longrightarrow> \<not> P y \<Longrightarrow> takeWhile P (xs @ y # ys) = xs"
  by (induction xs) auto

lemma dropWhile_append_stop:
  "(\<forall>x\<in>set xs. P x) \<Longrightarrow> \<not> P y \<Longrightarrow> dropWhile P (xs @ y # ys) = y # ys"
  by (induction xs) auto

text \<open>Cutting a list at the first occurrence of a separator (\<open>str.split\<close>, \<open>str.partition\<close>).\<close>

lemma takeWhile_neq_append [text_simps]:
  "c \<notin> set s \<Longrightarrow> takeWhile (\<lambda>x. x \<noteq> c) (s @ r) = s @ takeWhile (\<lambda>x. x \<noteq> c) r"
  by (induction s) auto

lemma dropWhile_neq_append [text_simps]:
  "c \<notin> set s \<Longrightarrow> dropWhile (\<lambda>x. x \<noteq> c) (s @ r) = dropWhile (\<lambda>x. x \<noteq> c) r"
  by (induction s) auto

lemma takeWhile_neq_all [text_simps]: "c \<notin> set s \<Longrightarrow> takeWhile (\<lambda>x. x \<noteq> c) s = s"
  by (induction s) auto

lemma dropWhile_neq_all [text_simps]: "c \<notin> set s \<Longrightarrow> dropWhile (\<lambda>x. x \<noteq> c) s = []"
  by (induction s) auto

lemma append_sep_eq [text_simps]:
  "c \<notin> set v \<Longrightarrow> c \<notin> set v' \<Longrightarrow> (v @ c # r = v' @ c # r') \<longleftrightarrow> (v = v' \<and> r = r')"
proof (induction v arbitrary: v')
  case Nil
  then show ?case by (cases v') auto
next
  case (Cons x xs)
  then show ?case by (cases v') auto
qed

lemma card_union_le_sum: "finite A \<Longrightarrow> finite B \<Longrightarrow> card (A \<union> B) \<le> card A + card B"
  by (rule card_Un_le)

text \<open>Counting over a list after one element is replaced (a step of one task).\<close>

lemma length_filter_list_update:
  "i < length xs \<Longrightarrow>
   length (filter P (xs[i := x])) + (if P (xs ! i) then 1 else 0) =
   length (filter P xs) + (if P x then 1 else 0)"
proof -
  assume i: "i < length xs"
  have u: "xs[i := x] = take i xs @ x # drop (Suc i) xs" using i by (rule upd_conv_take_nth_drop)
  have o: "xs = take i xs @ xs ! i # drop (Suc i) xs" using i by (simp add: id_take_nth_drop)
  show ?thesis by (subst u, subst (2) o) simp
qed

lemma sum_list_map_update:
  "i < length xs \<Longrightarrow>
   sum_list (map f (xs[i := x])) + f (xs ! i) = sum_list (map f xs) + (f x :: nat)"
proof -
  assume i: "i < length xs"
  have u: "xs[i := x] = take i xs @ x # drop (Suc i) xs" using i by (rule upd_conv_take_nth_drop)
  have o: "xs = take i xs @ xs ! i # drop (Suc i) xs" using i by (simp add: id_take_nth_drop)
  show ?thesis by (subst u, subst (2) o) simp
qed

end
