(* ===== verification/Regex.thy ===== *)
theory Regex
  imports Prelude
begin

text \<open>
  The fragment of Python's \<open>re\<close> module the program uses: literals, a character class
  with a greedy bounded or unbounded repetition (\<open>\d{1,3}\<close>, \<open>[a-zA-Z0-9_]+\<close>,
  \<open>s?\<close>), sequencing, a fixed repetition of a group (\<open>(?:...){3}\<close>), the word boundary
  \<open>\b\<close> and the anchors \<open>^\<close> and \<open>$\<close>. The matcher \<open>mt\<close> is the backtracking
  semantics of CPython's \<open>sre\<close> engine written with success continuations: the first
  result in the engine's priority order is the result. \<open>findall\<close> is
  \<open>re.findall\<close> (scan left to right, continue at the end of each match, an empty match
  forces the next one to advance) and \<open>re_match\<close> is \<open>re.match\<close> (anchored at 0).
  A position is described by the character before it (\<open>None\<close> at the start of the
  string) and the rest of the string.
\<close>

datatype rx =
    Eps
  | Chr char
  | Cls "char \<Rightarrow> bool" nat "nat option"
  | Seq rx rx
  | WordB
  | Bos
  | Eos

type_synonym 'a cont = "char option \<Rightarrow> string \<Rightarrow> 'a option"

fun rpow :: "nat \<Rightarrow> rx \<Rightarrow> rx" where
  "rpow 0 r = Eps"
| "rpow (Suc n) r = Seq r (rpow n r)"

fun dec_bound :: "nat option \<Rightarrow> nat option" where
  "dec_bound None = None"
| "dec_bound (Some n) = Some (n - 1)"

text \<open>
  Greedy repetition: take one more character of the class while the upper bound allows
  and try the rest of the pattern from there first; only when that fails, stop here.
  This tries the lengths longest first, the order of sre's \<open>REPEAT_ONE\<close>.
\<close>

fun rep_max :: "(char \<Rightarrow> bool) \<Rightarrow> nat option \<Rightarrow> char option \<Rightarrow> string \<Rightarrow> 'a cont \<Rightarrow> 'a option" where
  "rep_max P hi p [] k = k p []"
| "rep_max P hi p (x # xs) k =
     (if P x \<and> hi \<noteq> Some 0
      then (case rep_max P (dec_bound hi) (Some x) xs k of
              Some r \<Rightarrow> Some r
            | None \<Rightarrow> k p (x # xs))
      else k p (x # xs))"

fun rep_min :: "(char \<Rightarrow> bool) \<Rightarrow> nat \<Rightarrow> nat option \<Rightarrow> char option \<Rightarrow> string \<Rightarrow> 'a cont \<Rightarrow> 'a option" where
  "rep_min P 0 hi p s k = rep_max P hi p s k"
| "rep_min P (Suc n) hi p [] k = None"
| "rep_min P (Suc n) hi p (x # xs) k =
     (if P x then rep_min P n (dec_bound hi) (Some x) xs k else None)"

fun mt :: "rx \<Rightarrow> char option \<Rightarrow> string \<Rightarrow> 'a cont \<Rightarrow> 'a option" where
  "mt Eps p s k = k p s"
| "mt (Chr c) p s k = (case s of [] \<Rightarrow> None | x # xs \<Rightarrow> if x = c then k (Some x) xs else None)"
| "mt (Cls P lo hi) p s k = rep_min P lo hi p s k"
| "mt (Seq r1 r2) p s k = mt r1 p s (\<lambda>p' s'. mt r2 p' s' k)"
| "mt WordB p s k =
     (if is_word_opt p \<noteq> is_word_opt (case s of [] \<Rightarrow> None | x # _ \<Rightarrow> Some x) then k p s else None)"
| "mt Bos p s k = (if p = None then k p s else None)"
| "mt Eos p s k = (if s = [] \<or> s = [CHR 0x0A] then k p s else None)"

text \<open>Whether \<open>n\<close> repetitions are within an upper bound (\<open>None\<close>: unbounded).\<close>

fun rep_within :: "nat option \<Rightarrow> nat \<Rightarrow> bool" where
  "rep_within None n = True"
| "rep_within (Some h) n = (n \<le> h)"

text \<open>
  The continuation with which \<open>re.findall\<close> starts a search: it returns the end
  position, and rejects an empty match when \<open>ma\<close> (sre's \<open>must_advance\<close>) is set,
  as sre does at its final \<open>SUCCESS\<close>, so that the engine backtracks.
\<close>

definition top_cont :: "bool \<Rightarrow> string \<Rightarrow> (char option \<times> string) cont" where
  "top_cont ma s = (\<lambda>p' s'. if ma \<and> length s' = length s then None else Some (p', s'))"

section \<open>A match ends at a suffix of where it started\<close>

lemma cont_here: "k p s = Some v \<Longrightarrow> \<exists>p' u s'. s = u @ s' \<and> k p' s' = Some v"
  by (metis append_Nil)

lemma rep_max_suffix:
  "rep_max P hi p s k = Some v \<Longrightarrow> \<exists>p' u s'. s = u @ s' \<and> k p' s' = Some v"
proof (induction P hi p s k rule: rep_max.induct)
  case (1 P hi p k)
  then show ?case by fastforce
next
  case (2 P hi p x xs k)
  show ?case
  proof (cases "P x \<and> hi \<noteq> Some 0")
    case True
    show ?thesis
    proof (cases "rep_max P (dec_bound hi) (Some x) xs k")
      case None
      with True "2.prems" show ?thesis by (metis append_Nil option.simps(4) rep_max.simps(2))
    next
      case (Some r)
      with True "2.prems" have "rep_max P (dec_bound hi) (Some x) xs k = Some v" by simp
      with True "2.IH" obtain p' u s' where "xs = u @ s'" "k p' s' = Some v" by blast
      then show ?thesis by (metis append_Cons)
    qed
  next
    case False
    with "2.prems" show ?thesis by (metis append_Nil rep_max.simps(2))
  qed
qed

lemma rep_min_suffix:
  "rep_min P lo hi p s k = Some v \<Longrightarrow> \<exists>p' u s'. s = u @ s' \<and> k p' s' = Some v"
proof (induction P lo hi p s k rule: rep_min.induct)
  case (1 P hi p s k)
  then show ?case by (simp add: rep_max_suffix)
next
  case (2 P n hi p k)
  then show ?case by simp
next
  case (3 P n hi p x xs k)
  then show ?case by (metis append_Cons option.distinct(1) rep_min.simps(3))
qed

lemma mt_suffix:
  "mt r p s k = Some v \<Longrightarrow> \<exists>p' u s'. s = u @ s' \<and> k p' s' = Some v"
proof (induction r arbitrary: p s k)
  case (Chr c)
  then show ?case by (auto split: list.splits if_splits) (metis append_Cons append_Nil)
next
  case (Cls P lo hi)
  then show ?case by (simp add: rep_min_suffix)
next
  case (Seq r1 r2)
  from Seq.prems have "mt r1 p s (\<lambda>p' s'. mt r2 p' s' k) = Some v" by simp
  then obtain p1 u1 s1 where "s = u1 @ s1" "mt r2 p1 s1 k = Some v"
    using Seq.IH(1) by blast
  with Seq.IH(2) show ?case by (metis append.assoc)
qed (auto split: if_splits intro: cont_here)

lemma top_cont_Some:
  "top_cont ma s p' s' = Some v \<Longrightarrow> v = (p', s') \<and> \<not> (ma \<and> length s' = length s)"
  by (simp add: top_cont_def split: if_splits)

lemma findall_step:
  assumes "mt r p s (top_cont ma s) = Some (p', s')"
  shows "length s' \<le> length s \<and> \<not> (ma \<and> length s' = length s)"
proof -
  from mt_suffix [OF assms] obtain q u t where s: "s = u @ t" and t: "top_cont ma s q t = Some (p', s')"
    by blast
  from top_cont_Some [OF t] have "s' = t" "\<not> (ma \<and> length t = length s)" by auto
  with s show ?thesis by auto
qed

section \<open>Greedy repetition of a class followed by a rejecting continuation\<close>

lemma within_0 [simp]: "rep_within hi 0"
  by (cases hi) auto

lemma within_Suc: "hi \<noteq> Some 0 \<Longrightarrow> rep_within hi (Suc n) = rep_within (dec_bound hi) n"
  by (cases hi) auto

lemma last_takeWhile: "takeWhile P s \<noteq> [] \<Longrightarrow> P (last (takeWhile P s))"
  using last_in_set set_takeWhileD by metis

text \<open>
  When the rest of the pattern fails at every position followed by another class
  character, backtracking cannot succeed at a shorter length: the repetition takes the
  maximal run, and fails if the run is longer than the bound.
\<close>

lemma rep_max_run:
  assumes "P c" and H: "\<And>c' x xs. P c' \<Longrightarrow> P x \<Longrightarrow> k (Some c') (x # xs) = None"
  shows "rep_max P hi (Some c) s k =
    (if rep_within hi (length (takeWhile P s))
     then k (Some (last (c # takeWhile P s))) (dropWhile P s) else None)"
  using assms(1)
proof (induction s arbitrary: hi c)
  case Nil
  then show ?case by simp
next
  case (Cons x xs)
  show ?case
  proof (cases "P x")
    case px: True
    show ?thesis
    proof (cases "hi = Some 0")
      case True
      with px Cons.prems H show ?thesis by simp
    next
      case False
      have IH: "rep_max P (dec_bound hi) (Some x) xs k =
        (if rep_within (dec_bound hi) (length (takeWhile P xs))
         then k (Some (last (x # takeWhile P xs))) (dropWhile P xs) else None)"
        using Cons.IH [OF px] .
      from False px Cons.prems H show ?thesis
        by (simp add: IH within_Suc split: option.splits)
    qed
  next
    case False
    then show ?thesis by simp
  qed
qed

lemma mt_class_run:
  assumes H: "\<And>c' x xs. P c' \<Longrightarrow> P x \<Longrightarrow> k (Some c') (x # xs) = None"
    and "0 < n"
  shows "mt (Cls P 1 (Some n)) p s k =
    (let d = takeWhile P s in
     if d \<noteq> [] \<and> length d \<le> n then k (Some (last d)) (dropWhile P s) else None)"
proof (cases s)
  case Nil
  then show ?thesis by simp
next
  case (Cons x xs)
  show ?thesis
  proof (cases "P x")
    case True
    have "rep_max P (Some (n - 1)) (Some x) xs k =
      (if rep_within (Some (n - 1)) (length (takeWhile P xs))
       then k (Some (last (x # takeWhile P xs))) (dropWhile P xs) else None)"
      using rep_max_run [where P = P and c = x and k = k and hi = "Some (n - 1)" and s = xs,
          OF True H] .
    with Cons True \<open>0 < n\<close> show ?thesis by (auto simp: Let_def)
  next
    case False
    with Cons show ?thesis by simp
  qed
qed

section \<open>Evaluation rules\<close>

lemma mt_Seq_assoc [rx_simps]:
  "mt (Seq (Seq a b) c) p s k = mt (Seq a (Seq b c)) p s k"
  by simp

lemma rpow_3 [rx_simps]: "rpow 3 r = Seq r (Seq r (Seq r Eps))"
  by (simp add: numeral_3_eq_3)

end
