(* ===== verification/ReFindall.thy ===== *)
theory ReFindall
  imports Regex
begin

text \<open>
  \<open>re.findall\<close> and \<open>re.match\<close> over the matcher of theory Regex. The termination
  of the scan rests on \<open>findall_step\<close>: a match ends at a suffix of its start, and
  under \<open>must_advance\<close> at a strictly shorter one.
\<close>

text \<open>
  \<open>findall_from r ma p s\<close>: the matches of \<open>r\<close> from the position \<open>(p, s)\<close> on.
  A search tries the positions from left to right; after a match it continues at the
  match's end with \<open>must_advance\<close> set when the match was empty.
\<close>

function findall_from :: "rx \<Rightarrow> bool \<Rightarrow> char option \<Rightarrow> string \<Rightarrow> string list" where
  "findall_from r ma p s =
     (case mt r p s (top_cont ma s) of
        Some (p', s') \<Rightarrow> take (length s - length s') s # findall_from r (length s' = length s) p' s'
      | None \<Rightarrow> (case s of [] \<Rightarrow> [] | x # xs \<Rightarrow> findall_from r False (Some x) xs))"
  by pat_completeness auto
termination
  by (relation "measure (\<lambda>(r, ma, p, s). 2 * length s + (if ma then 0 else 1))")
    (auto dest!: findall_step)

declare findall_from.simps [simp del]

definition findall :: "rx \<Rightarrow> string \<Rightarrow> string list" where
  "findall r s = findall_from r False None s"

definition re_match :: "rx \<Rightarrow> string \<Rightarrow> string option" where
  "re_match r s = mt r None s (\<lambda>p' s'. Some (take (length s - length s') s))"

end
