(* ===== verification/ProxyScan.thy ===== *)
theory ProxyScan
  imports Prelude
begin

text \<open>
  A direct scanner for the proxy endpoints that \<open>ProxyScraper.fetch_proxy_list\<close>
  extracts (src/proxy_scrapper.py line 20): at a position not preceded by a word
  character, four maximal runs of one to three digits separated by dots and ended by a
  colon, then a maximal run of one to five digits not followed by a word character. It
  reads the fields without backtracking; theory ProxyPattern proves it equal to the
  regex semantics of the pattern. Here also the well-formed endpoints
  (\<open>endpoint_ok\<close>), their text (\<open>render_endpoint\<close>) and the line-per-endpoint layout
  of the proxy-list sources (\<open>proxy_lines\<close>).
\<close>

section \<open>Fields and the scanner\<close>

text \<open>A run of one to \<open>n\<close> digits, maximal, followed by the separator.\<close>

definition digit_field :: "nat \<Rightarrow> char \<Rightarrow> string \<Rightarrow> (string \<times> string) option" where
  "digit_field n sep s =
     (let d = takeWhile is_digit s; r = dropWhile is_digit s in
      if d \<noteq> [] \<and> length d \<le> n \<and> r \<noteq> [] \<and> hd r = sep then Some (d, tl r) else None)"

text \<open>The port: one to five digits, maximal, not followed by a word character.\<close>

definition port_field :: "string \<Rightarrow> (string \<times> string) option" where
  "port_field s =
     (let d = takeWhile is_digit s; r = dropWhile is_digit s in
      if d \<noteq> [] \<and> length d \<le> 5 \<and> \<not> is_word_opt (case r of [] \<Rightarrow> None | x # _ \<Rightarrow> Some x)
      then Some (d, r) else None)"

definition proxy_scan :: "char option \<Rightarrow> string \<Rightarrow> (string \<times> string) option" where
  "proxy_scan p s =
     (if is_word_opt p then None else
      case digit_field 3 CHR ''.'' s of None \<Rightarrow> None | Some (a, s1) \<Rightarrow>
      case digit_field 3 CHR ''.'' s1 of None \<Rightarrow> None | Some (b, s2) \<Rightarrow>
      case digit_field 3 CHR ''.'' s2 of None \<Rightarrow> None | Some (c, s3) \<Rightarrow>
      case digit_field 3 CHR '':'' s3 of None \<Rightarrow> None | Some (d, s4) \<Rightarrow>
      case port_field s4 of None \<Rightarrow> None | Some (e, r) \<Rightarrow>
        Some (a @ CHR ''.'' # b @ CHR ''.'' # c @ CHR ''.'' # d @ CHR '':'' # e, r))"

section \<open>Well-formed endpoints and proxy-list texts\<close>

type_synonym endpoint_fields = "string \<times> string \<times> string \<times> string \<times> string"

definition digits_upto :: "nat \<Rightarrow> string \<Rightarrow> bool" where
  "digits_upto n d \<longleftrightarrow> d \<noteq> [] \<and> length d \<le> n \<and> list_all is_digit d"

fun render_endpoint :: "endpoint_fields \<Rightarrow> string" where
  "render_endpoint (a, b, c, d, e) = a @ CHR ''.'' # b @ CHR ''.'' # c @ CHR ''.'' # d @ CHR '':'' # e"

fun endpoint_ok :: "endpoint_fields \<Rightarrow> bool" where
  "endpoint_ok (a, b, c, d, e) \<longleftrightarrow>
     digits_upto 3 a \<and> digits_upto 3 b \<and> digits_upto 3 c \<and> digits_upto 3 d \<and> digits_upto 5 e"

definition proxy_lines :: "string list \<Rightarrow> string" where
  "proxy_lines es = concat (map (\<lambda>e. e @ [CHR 0x0A]) es)"

text \<open>A string the scanner reads whole from the start of a text: a well-formed endpoint.\<close>

definition is_endpoint :: "string \<Rightarrow> bool" where
  "is_endpoint p \<longleftrightarrow> proxy_scan None p = Some (p, [])"

section \<open>What the scanner reads\<close>

lemma digit_field_split:
  assumes "digit_field n sep s = Some (d, r)"
  shows "s = d @ sep # r \<and> d \<noteq> []"
proof -
  let ?r = "dropWhile is_digit s"
  from assms have d: "d = takeWhile is_digit s" "d \<noteq> []"
    and r: "?r \<noteq> []" "hd ?r = sep" "r = tl ?r"
    by (auto simp: digit_field_def Let_def split: if_splits)
  from r have "?r = sep # r" by (cases ?r) auto
  then have "s = takeWhile is_digit s @ sep # r" by (metis takeWhile_dropWhile_id)
  with d show ?thesis by simp
qed

lemma port_field_split:
  "port_field s = Some (d, r) \<Longrightarrow> s = d @ r \<and> d \<noteq> []"
  by (auto simp: port_field_def Let_def split: if_splits)

lemma proxy_scan_split:
  "proxy_scan p s = Some (m, r) \<Longrightarrow> s = m @ r \<and> m \<noteq> []"
  by (auto simp: proxy_scan_def split: if_splits option.splits
      dest!: digit_field_split port_field_split)

lemma digit_field_digits: "digit_field n sep s = Some (d, r) \<Longrightarrow> digits_upto n d"
  by (auto simp: digit_field_def digits_upto_def Let_def list_all_iff dest: set_takeWhileD
      split: if_splits)

lemma port_field_digits: "port_field s = Some (d, r) \<Longrightarrow> digits_upto 5 d"
  by (auto simp: port_field_def digits_upto_def Let_def list_all_iff dest: set_takeWhileD
      split: if_splits)

lemma proxy_scan_endpoint:
  "proxy_scan p s = Some (m, r) \<Longrightarrow> \<exists>f. endpoint_ok f \<and> m = render_endpoint f"
  by (auto simp: proxy_scan_def split: if_splits option.splits
      dest!: digit_field_digits port_field_digits) blast

lemma digit_field_append:
  "digits_upto n d \<Longrightarrow> \<not> is_digit sep \<Longrightarrow> digit_field n sep (d @ sep # r) = Some (d, r)"
  by (simp add: digit_field_def digits_upto_def list_all_iff takeWhile_append_stop
      dropWhile_append_stop)

lemma port_field_append:
  assumes "digits_upto 5 e" "\<not> is_word_opt (case r of [] \<Rightarrow> None | x # _ \<Rightarrow> Some x)"
  shows "port_field (e @ r) = Some (e, r)"
proof (cases r)
  case Nil
  with assms(1) show ?thesis
    by (simp add: port_field_def digits_upto_def list_all_iff Let_def takeWhile_eq_all_conv [THEN iffD2]
        dropWhile_eq_Nil_conv [THEN iffD2])
next
  case (Cons x xs)
  with assms have "\<not> is_digit x" by auto
  with assms Cons show ?thesis
    by (simp add: port_field_def digits_upto_def list_all_iff takeWhile_append_stop
        dropWhile_append_stop)
qed

lemma proxy_scan_render:
  assumes "endpoint_ok f" "\<not> is_word_opt p"
    and "\<not> is_word_opt (case r of [] \<Rightarrow> None | x # _ \<Rightarrow> Some x)"
  shows "proxy_scan p (render_endpoint f @ r) = Some (render_endpoint f, r)"
  using assms
  by (cases f) (simp add: proxy_scan_def digit_field_append port_field_append)

lemma last_render_digit: "endpoint_ok f \<Longrightarrow> is_digit (last (render_endpoint f))"
  by (cases f) (auto simp: digits_upto_def list_all_iff)

lemma proxy_scan_after_word: "is_word c \<Longrightarrow> proxy_scan (Some c) s = None"
  by (simp add: proxy_scan_def)

lemma proxy_scan_Nil: "proxy_scan p [] = None"
  by (simp add: proxy_scan_def digit_field_def)

end
