(* ===== verification/ProxyPattern.thy ===== *)
theory ProxyPattern
  imports ReFindall ProxyScan
begin

text \<open>
  The endpoint pattern of \<open>ProxyScraper.fetch_proxy_list\<close>
  (\<^verbatim>\<open>\b(?:\d{1,3}\.){3}\d{1,3}:\d{1,5}\b\<close>, src/proxy_scrapper.py line 20) as a term of
  the regex fragment, and the proof that the regex semantics of it is the direct
  scanner \<open>proxy_scan\<close> of theory ProxyScan for every continuation; hence
  \<open>re.findall\<close> with the pattern is the scanner loop \<open>scan_all\<close>. On top of it: what
  the extraction returns (exactly the well-formed endpoints of a line-per-endpoint list,
  and only well-formed endpoints that occur in the text).
\<close>

definition proxy_pattern :: rx where
  "proxy_pattern =
     Seq WordB
      (Seq (rpow 3 (Seq (Cls is_digit 1 (Some 3)) (Chr CHR ''.'')))
        (Seq (Cls is_digit 1 (Some 3))
          (Seq (Chr CHR '':'') (Seq (Cls is_digit 1 (Some 5)) WordB))))"

text \<open>The scanner loop: \<open>re.findall\<close> specialised to the pattern.\<close>

function scan_all :: "char option \<Rightarrow> string \<Rightarrow> string list" where
  "scan_all p s =
     (case proxy_scan p s of
        Some (m, r) \<Rightarrow> m # scan_all (Some (last m)) r
      | None \<Rightarrow> (case s of [] \<Rightarrow> [] | x # xs \<Rightarrow> scan_all (Some x) xs))"
  by pat_completeness auto
termination
  by (relation "measure (\<lambda>(p, s). length s)") (auto dest!: proxy_scan_split)

declare scan_all.simps [simp del]

section \<open>The regex semantics of the pattern is the scanner\<close>

lemma mt_digits_sep [rx_simps]:
  assumes "\<not> is_digit sep" "0 < n"
  shows "mt (Seq (Cls is_digit 1 (Some n)) (Seq (Chr sep) z)) p s k =
    (case digit_field n sep s of None \<Rightarrow> None | Some (d, r) \<Rightarrow> mt z (Some sep) r k)"
proof -
  let ?k = "\<lambda>p' s'. mt (Seq (Chr sep) z) p' s' k"
  have H: "\<And>c' x xs. is_digit c' \<Longrightarrow> is_digit x \<Longrightarrow> ?k (Some c') (x # xs) = None"
    using assms(1) by auto
  have "mt (Cls is_digit 1 (Some n)) p s ?k =
    (let d = takeWhile is_digit s in
     if d \<noteq> [] \<and> length d \<le> n then ?k (Some (last d)) (dropWhile is_digit s) else None)"
    using mt_class_run [where P = is_digit and k = ?k, OF H \<open>0 < n\<close>] .
  then show ?thesis
    by (cases "dropWhile is_digit s") (simp_all add: digit_field_def Let_def del: dropWhile_eq_Nil_conv)
qed

lemma mt_port [rx_simps]:
  "mt (Seq (Cls is_digit 1 (Some 5)) WordB) p s k =
    (case port_field s of None \<Rightarrow> None | Some (d, r) \<Rightarrow> k (Some (last d)) r)"
proof -
  let ?k = "\<lambda>p' s'. mt WordB p' s' k"
  have H: "\<And>c' x xs. is_digit c' \<Longrightarrow> is_digit x \<Longrightarrow> ?k (Some c') (x # xs) = None"
    by simp
  show ?thesis
    using mt_class_run [where P = is_digit and k = ?k and n = 5, OF H] last_takeWhile [of is_digit s]
    by (auto simp: port_field_def Let_def split: list.splits)
qed

lemma mt_wordb_digits [rx_simps]:
  "mt (Seq WordB (Seq (Cls is_digit 1 hi) z)) p s k =
    (if is_word_opt p then None else mt (Seq (Cls is_digit 1 hi) z) p s k)"
  by (cases s) auto

lemma mt_proxy_pattern_flat:
  "mt proxy_pattern p s k =
   mt (Seq WordB (Seq (Cls is_digit 1 (Some 3)) (Seq (Chr CHR ''.'')
      (Seq (Cls is_digit 1 (Some 3)) (Seq (Chr CHR ''.'')
      (Seq (Cls is_digit 1 (Some 3)) (Seq (Chr CHR ''.'')
      (Seq (Cls is_digit 1 (Some 3)) (Seq (Chr CHR '':'')
      (Seq (Cls is_digit 1 (Some 5)) WordB)))))))))) p s k"
  by (simp add: proxy_pattern_def numeral_3_eq_3)

text \<open>
  C9. The backtracking semantics of the endpoint pattern is the direct scanner: for
  every continuation, matching the pattern at a position succeeds exactly where
  \<open>proxy_scan\<close> reads an endpoint, and continues after it.
\<close>

theorem mt_proxy_pattern:
  "mt proxy_pattern p s k =
    (case proxy_scan p s of None \<Rightarrow> None | Some (m, r) \<Rightarrow> k (Some (last m)) r)"
  unfolding mt_proxy_pattern_flat
  by (simp only: mt_wordb_digits mt_digits_sep mt_port not_digit_punct zero_less_numeral
      not_False_eq_True mt.simps(1))
     (auto simp: proxy_scan_def split: option.splits dest!: port_field_split)

lemma findall_from_proxy_pattern: "findall_from proxy_pattern ma p s = scan_all p s"
proof (induction p s arbitrary: ma rule: scan_all.induct)
  case (1 p s)
  show ?case
  proof (cases "proxy_scan p s")
    case None
    have "findall_from proxy_pattern ma p s =
      (case s of [] \<Rightarrow> [] | x # xs \<Rightarrow> findall_from proxy_pattern False (Some x) xs)"
      by (simp add: findall_from.simps [of _ ma p s] mt_proxy_pattern None)
    moreover have "scan_all p s = (case s of [] \<Rightarrow> [] | x # xs \<Rightarrow> scan_all (Some x) xs)"
      by (simp add: scan_all.simps [of p s] None)
    ultimately show ?thesis
      using "1.IH"(1) [OF None] by (simp split: list.splits)
  next
    case (Some mr)
    then obtain m r where mr: "proxy_scan p s = Some (m, r)" by (cases mr) auto
    from proxy_scan_split [OF mr] have s: "s = m @ r" "m \<noteq> []" by auto
    from s have len: "length r < length s" by simp
    have "findall_from proxy_pattern ma p s =
      take (length s - length r) s # findall_from proxy_pattern False (Some (last m)) r"
      using len by (simp add: findall_from.simps [of _ ma p s] mt_proxy_pattern mr top_cont_def)
    also have "take (length s - length r) s = m" using s by simp
    also have "findall_from proxy_pattern False (Some (last m)) r = scan_all (Some (last m)) r"
      using "1.IH"(2) [OF mr refl] .
    also have "m # scan_all (Some (last m)) r = scan_all p s"
      by (simp add: scan_all.simps [of p s] mr)
    finally show ?thesis .
  qed
qed

theorem findall_proxy_pattern: "findall proxy_pattern s = scan_all None s"
  by (simp add: findall_def findall_from_proxy_pattern)

lemma findall_proxy_example: "findall proxy_pattern ''a 1.2.3.4:8080, 5.6.7.8:3128'' = [''1.2.3.4:8080'', ''5.6.7.8:3128'']"
  by (simp add: findall_proxy_pattern) code_simp

lemma scan_all_lines:
  "list_all endpoint_ok fs \<Longrightarrow> \<not> is_word_opt p \<Longrightarrow>
   scan_all p (proxy_lines (map render_endpoint fs)) = map render_endpoint fs"
proof (induction fs arbitrary: p)
  case Nil
  then show ?case by (simp add: proxy_lines_def scan_all.simps proxy_scan_Nil)
next
  case (Cons f fs)
  let ?rest = "proxy_lines (map render_endpoint fs)"
  from Cons.prems have ok: "endpoint_ok f" "list_all endpoint_ok fs" by simp_all
  have "proxy_lines (map render_endpoint (f # fs)) = render_endpoint f @ CHR 0x0A # ?rest"
    by (simp add: proxy_lines_def)
  moreover have "proxy_scan p (render_endpoint f @ CHR 0x0A # ?rest) =
      Some (render_endpoint f, CHR 0x0A # ?rest)"
    using proxy_scan_render [OF ok(1) Cons.prems(2)] by simp
  moreover have "scan_all (Some (last (render_endpoint f))) (CHR 0x0A # ?rest) =
      scan_all (Some (CHR 0x0A)) ?rest"
    using last_render_digit [OF ok(1)]
    by (simp add: scan_all.simps [of _ "CHR 0x0A # ?rest"] proxy_scan_after_word)
  moreover have "scan_all (Some (CHR 0x0A)) ?rest = map render_endpoint fs"
    using Cons.IH [OF ok(2)] by simp
  ultimately show ?case
    by (simp add: scan_all.simps [of p "render_endpoint f @ CHR 0x0A # ?rest"])
qed

text \<open>
  C10. Round trip: for a proxy-list text with one well-formed endpoint per line (the
  layout of the configured sources), \<open>re.findall\<close> with the pattern returns exactly
  the endpoints, in order.
\<close>

theorem findall_proxy_lines:
  "list_all endpoint_ok fs \<Longrightarrow>
   findall proxy_pattern (proxy_lines (map render_endpoint fs)) = map render_endpoint fs"
  by (simp add: findall_proxy_pattern scan_all_lines)

lemma scan_all_sound:
  "m \<in> set (scan_all p s) \<Longrightarrow>
   (\<exists>f. endpoint_ok f \<and> m = render_endpoint f) \<and> (\<exists>u v. s = u @ m @ v)"
proof (induction p s rule: scan_all.induct)
  case (1 p s)
  show ?case
  proof (cases "proxy_scan p s")
    case None
    from "1.prems" None have m: "m \<in> set (case s of [] \<Rightarrow> [] | x # xs \<Rightarrow> scan_all (Some x) xs)"
      by (simp add: scan_all.simps [of p s])
    then obtain x xs where s: "s = x # xs" and mx: "m \<in> set (scan_all (Some x) xs)"
      by (cases s) auto
    from "1.IH"(1) [OF None s mx] s show ?thesis by (metis append_Cons)
  next
    case (Some mr)
    then obtain m' r where mr: "proxy_scan p s = Some (m', r)" by (cases mr) auto
    from proxy_scan_split [OF mr] have s: "s = m' @ r" by simp
    from "1.prems" mr have "m = m' \<or> m \<in> set (scan_all (Some (last m')) r)"
      by (simp add: scan_all.simps [of p s])
    then show ?thesis
    proof
      assume "m = m'"
      with proxy_scan_endpoint [OF mr] s show ?thesis by (metis append_Nil)
    next
      assume "m \<in> set (scan_all (Some (last m')) r)"
      from "1.IH"(2) [OF mr refl this] s show ?thesis by (metis append.assoc)
    qed
  qed
qed

lemma findall_endpoint: "m \<in> set (findall proxy_pattern s) \<Longrightarrow> is_endpoint m"
proof -
  assume "m \<in> set (findall proxy_pattern s)"
  then obtain f where "endpoint_ok f" "m = render_endpoint f"
    using scan_all_sound unfolding findall_proxy_pattern by blast
  then show ?thesis
    using proxy_scan_render [of f None "[]"] by (simp add: is_endpoint_def)
qed

text \<open>
  C11. Extraction is sound: every string \<open>re.findall\<close> returns for the pattern is a
  well-formed endpoint (four dot-separated fields of one to three digits, a colon and
  one to five digits) that occurs in the text.
\<close>

theorem findall_proxy_sound:
  "m \<in> set (findall proxy_pattern s) \<Longrightarrow>
   (\<exists>f. endpoint_ok f \<and> m = render_endpoint f) \<and> (\<exists>u v. s = u @ m @ v)"
  unfolding findall_proxy_pattern by (rule scan_all_sound)

theorem findall_proxy_lines_witness:
  "list_all endpoint_ok [(''1'', ''2'', ''3'', ''4'', ''8080''), (''10'', ''20'', ''30'', ''40'', ''3128'')] \<and>
   findall proxy_pattern
     (proxy_lines (map render_endpoint
        [(''1'', ''2'', ''3'', ''4'', ''8080''), (''10'', ''20'', ''30'', ''40'', ''3128'')])) =
   map render_endpoint [(''1'', ''2'', ''3'', ''4'', ''8080''), (''10'', ''20'', ''30'', ''40'', ''3128'')]"
proof -
  have ok: "list_all endpoint_ok
      [(''1'', ''2'', ''3'', ''4'', ''8080''), (''10'', ''20'', ''30'', ''40'', ''3128'')]"
    by (simp add: digits_upto_def is_digit_def)
  show ?thesis using ok findall_proxy_lines [OF ok] by simp
qed

theorem findall_proxy_sound_witness:
  "''1.2.3.4:8080'' \<in> set (findall proxy_pattern ''x 1.2.3.4:8080;'') \<and>
   (\<exists>f. endpoint_ok f \<and> ''1.2.3.4:8080'' = render_endpoint f) \<and>
   (\<exists>u v. ''x 1.2.3.4:8080;'' = u @ ''1.2.3.4:8080'' @ v)"
proof -
  have m: "''1.2.3.4:8080'' \<in> set (findall proxy_pattern ''x 1.2.3.4:8080;'')"
    by (simp add: findall_proxy_pattern) code_simp
  show ?thesis using m findall_proxy_sound [OF m] by blast
qed

end
