(* ===== verification/Config.thy ===== *)
theory Config
  imports Prelude
begin

text \<open>
  The configuration module (src/config.py): the dispatch worker count, the request
  timeout, the proxy-list sources and the two message templates, as lists of code points
  (U+1F44B waving hand, U+1F4CA bar chart, U+2022 bullet, U+1F504 arrows). The bot token
  and the request headers are constants the model does not need.
\<close>

definition THREAD_COUNT :: nat where
  "THREAD_COUNT = 800"

definition TIMEOUT :: nat where
  "TIMEOUT = 10"

definition PROXY_SOURCES :: "url list" where
  "PROXY_SOURCES =
    [''https://raw.githubusercontent.com/TheSpeedX/PROXY-List/master/http.txt'',
     ''https://raw.githubusercontent.com/ShiftyTR/Proxy-List/master/http.txt'',
     ''https://raw.githubusercontent.com/monosans/proxy-list/main/proxies/http.txt'',
     ''https://raw.githubusercontent.com/mertguvencli/http-proxy-list/main/proxy-list/data.txt'']"

definition WELCOME_MESSAGE :: ustr where
  "WELCOME_MESSAGE =
     [10, 0x1F44B] @ ustr_of '' Welcome to the Telegram Views Bot!'' @ [10, 10] @
     ustr_of ''Send me a Telegram post link and I'll start adding views to it.'' @ [10] @
     ustr_of ''The process will use multiple proxies and threads for maximum efficiency.'' @ [10, 10] @
     ustr_of ''Usage:'' @ [10] @
     ustr_of ''1. Send me a Telegram post link'' @ [10] @
     ustr_of ''2. Wait for the process to start'' @ [10] @
     ustr_of ''3. You'll receive real-time updates on the progress'' @ [10, 10] @
     ustr_of ''Example link format: https://t.me/channel_name/post_id'' @ [10]"

definition STATUS_MESSAGE :: ustr where
  "STATUS_MESSAGE =
     [10, 0x1F4CA] @ ustr_of '' Current Status:'' @ [10] @
     [0x2022] @ ustr_of '' Views Added: {views}'' @ [10] @
     [0x2022] @ ustr_of '' Active Proxies: {active_proxies}'' @ [10] @
     [0x2022] @ ustr_of '' Errors: {errors}'' @ [10] @
     [0x2022] @ ustr_of '' Uptime: {uptime}'' @ [10] @
     [0x2022] @ ustr_of '' Threads: {threads}'' @ [10, 10] @
     [0x1F504] @ ustr_of '' Process is running...'' @ [10]"

end
