(* ===== verification/ProxyScraper.thy ===== *)
theory ProxyScraper
  imports ProxyPattern Config "HOL-Library.List_Lexorder" "HOL-Library.Char_ord"
begin

text \<open>
  \<open>ProxyScraper\<close> (src/proxy_scrapper.py): the proxy pool. Its state is the set
  \<open>self.proxies\<close>; \<open>scrape\<close> first collects endpoints from every configured source into
  it, then validates every endpoint of the pool through a pool of 50 worker threads and
  returns the working ones in completion order. The network is a parameter: \<open>net u\<close>
  is what \<open>requests.get(u)\<close> gives for a source URL, \<open>probe px\<close> what the validation
  request through proxy \<open>px\<close> gives. The executor's completion order is the parameter
  \<open>sched\<close> (any enumeration of the submitted set; theory Executor shows that the thread
  pool produces one). The status callback is present or not (\<open>cb\<close>); its messages are
  the \<open>progress\<close> events, with their numbers but not their formatting. An exception
  leaves the state as it was when it was raised, so the operations return the state
  together with an error or a result.
\<close>

record scraper =
  proxies :: "proxy set"

datatype http_result = Response nat text_body | RequestError

datatype progress =
    StartScraping
  | FetchingSource string
  | SourceDone nat nat
  | CollectionDone nat nat
  | StartTesting nat
  | TestingProgress nat nat nat rat
  | TestingDone nat nat rat

text \<open>\<open>response.raise_for_status()\<close> raises for client and server errors only.\<close>

definition raise_for_status :: "nat \<Rightarrow> bool" where
  "raise_for_status st \<longleftrightarrow> 400 \<le> st \<and> st < 600"

definition fetch_proxy_list :: "(url \<Rightarrow> http_result) \<Rightarrow> url \<Rightarrow> proxy set" where
  "fetch_proxy_list net u =
     (case net u of
        RequestError \<Rightarrow> {}
      | Response st body \<Rightarrow>
          if raise_for_status st then {} else set (findall proxy_pattern body))"

definition test_proxy :: "(proxy \<Rightarrow> http_result) \<Rightarrow> proxy \<Rightarrow> bool" where
  "test_proxy probe px = (case probe px of RequestError \<Rightarrow> False | Response st _ \<Rightarrow> st = 200)"

text \<open>\<open>source.split('/')[-2]\<close>, the label of a source in the progress messages.\<close>

definition source_label :: "url \<Rightarrow> py_error + string" where
  "source_label u = py_get (py_split CHR ''/'' u) (-2)"

text \<open>
  The collection loop (lines 55-65) from the pool \<open>st\<close>, the running \<open>total_found\<close>
  and the messages so far. The label is computed only when there is a callback.
\<close>

fun collect :: "(url \<Rightarrow> http_result) \<Rightarrow> bool \<Rightarrow> url list \<Rightarrow> scraper \<Rightarrow> nat \<Rightarrow> progress list
    \<Rightarrow> scraper \<times> (py_error + nat \<times> progress list)" where
  "collect net cb [] st n ev = (st, Inr (n, ev))"
| "collect net cb (u # us) st n ev =
     (case (if cb then map_sum id Some (source_label u) else Inr None) of
        Inl e \<Rightarrow> (st, Inl e)
      | Inr lab \<Rightarrow>
          (let new = fetch_proxy_list net u; st' = st\<lparr>proxies := proxies st \<union> new\<rparr> in
           collect net cb us st' (n + card new)
             (ev @ (case lab of None \<Rightarrow> []
                     | Some l \<Rightarrow> [FetchingSource l, SourceDone (card new) (card (proxies st'))]))))"

text \<open>
  The validation loop (lines 95-114) over the completion order: the count of tested
  endpoints, the working list and the messages. Every 50th completion reports the
  progress before the completed endpoint's own result is appended; the percentage is
  computed whether or not there is a callback.
\<close>

fun test_loop :: "(proxy \<Rightarrow> http_result) \<Rightarrow> bool \<Rightarrow> nat \<Rightarrow> proxy list \<Rightarrow> nat \<Rightarrow> proxy list
    \<Rightarrow> progress list \<Rightarrow> py_error + nat \<times> proxy list \<times> progress list" where
  "test_loop probe cb n_total [] tested working ev = Inr (tested, working, ev)"
| "test_loop probe cb n_total (px # rest) tested working ev =
     (let tested' = Suc tested in
      case (if tested' mod 50 = 0
            then map_sum id (\<lambda>q. if cb then [TestingProgress tested' n_total (length working) (q * 100)]
                                 else []) (py_truediv tested' n_total)
            else Inr []) of
        Inl e \<Rightarrow> Inl e
      | Inr ev1 \<Rightarrow>
          test_loop probe cb n_total rest tested'
            (if test_proxy probe px then working @ [px] else working) (ev @ ev1))"

definition success_rate :: "nat \<Rightarrow> nat \<Rightarrow> rat" where
  "success_rate working n_total =
     (if 0 < n_total then of_nat working / of_nat n_total * 100 else 0)"

text \<open>\<open>scrape\<close> (lines 48-127); \<open>sched\<close> gives the executor's completion order.\<close>

definition scrape :: "(url \<Rightarrow> http_result) \<Rightarrow> (proxy \<Rightarrow> http_result) \<Rightarrow> bool
    \<Rightarrow> (proxy set \<Rightarrow> proxy list) \<Rightarrow> scraper \<Rightarrow> scraper \<times> (py_error + proxy list \<times> progress list)" where
  "scrape net probe cb sched st =
     (case collect net cb PROXY_SOURCES st 0 (if cb then [StartScraping] else []) of
        (st1, Inl e) \<Rightarrow> (st1, Inl e)
      | (st1, Inr (found, ev)) \<Rightarrow>
          (let n_total = card (proxies st1);
               ev' = ev @ (if cb then [CollectionDone n_total found, StartTesting n_total] else [])
           in case test_loop probe cb n_total (sched (proxies st1)) 0 [] ev' of
                Inl e \<Rightarrow> (st1, Inl e)
              | Inr (tested, working, ev'') \<Rightarrow>
                  (st1, Inr (working, ev'' @
                     (if cb then [TestingDone n_total (length working)
                                    (success_rate (length working) n_total)] else [])))))"

text \<open>\<open>get_working_proxies\<close> (lines 129-131): the whole pool, not only the working part.\<close>

definition get_working_proxies :: "scraper \<Rightarrow> proxy set" where
  "get_working_proxies st = proxies st"

text \<open>
  The progress messages the validation loop sends from completion \<open>t + 1\<close> on,
  when the working list is \<open>w\<close> and \<open>xs\<close> are still to complete.
\<close>

definition progress_events :: "(proxy \<Rightarrow> bool) \<Rightarrow> nat \<Rightarrow> proxy list \<Rightarrow> nat \<Rightarrow> proxy list \<Rightarrow> progress list" where
  "progress_events ok n_total xs t w =
     map (\<lambda>i. TestingProgress i n_total (length w + length (filter ok (take (i - Suc t) xs)))
                (of_nat i / of_nat n_total * 100))
       (filter (\<lambda>i. i mod 50 = 0) [Suc t..<Suc (t + length xs)])"

text \<open>The pool holds only well-formed endpoints.\<close>

definition scraper_wf :: "scraper \<Rightarrow> bool" where
  "scraper_wf st \<longleftrightarrow> (\<forall>p\<in>proxies st. is_endpoint p)"

section \<open>Lemmas\<close>

lemma collect_Inr:
  "collect net cb us st n ev = (st', Inr (found, ev')) \<Longrightarrow>
   proxies st' = proxies st \<union> (\<Union>u\<in>set us. fetch_proxy_list net u) \<and>
   found = n + (\<Sum>u\<leftarrow>us. card (fetch_proxy_list net u))"
proof (induction us arbitrary: st n ev)
  case Nil
  then show ?case by simp
next
  case (Cons u us)
  from Cons.prems obtain lab where
    lab: "(if cb then map_sum id Some (source_label u) else Inr None) = Inr lab"
    by (auto split: sum.splits)
  with Cons.prems have "\<exists>ev1. collect net cb us (st\<lparr>proxies := proxies st \<union> fetch_proxy_list net u\<rparr>)
      (n + card (fetch_proxy_list net u)) ev1 = (st', Inr (found, ev'))"
    by (auto simp: Let_def)
  then obtain ev1 where "collect net cb us (st\<lparr>proxies := proxies st \<union> fetch_proxy_list net u\<rparr>)
      (n + card (fetch_proxy_list net u)) ev1 = (st', Inr (found, ev'))" ..
  from Cons.IH [OF this] show ?case by auto
qed

lemma card_UN_list_le:
  "card (\<Union>u\<in>set us. F u) \<le> (\<Sum>u\<leftarrow>us. card (F u))"
proof (induction us)
  case (Cons u us)
  have "card (F u \<union> (\<Union>u\<in>set us. F u)) \<le> card (F u) + card (\<Union>u\<in>set us. F u)"
    by (rule card_Un_le)
  with Cons.IH show ?case by simp
qed simp

lemma test_loop_Inr:
  "tested + length xs \<le> n_total \<Longrightarrow>
   \<exists>ev'. test_loop probe cb n_total xs tested working ev =
     Inr (tested + length xs, working @ filter (test_proxy probe) xs, ev')"
proof (induction xs arbitrary: tested working ev)
  case Nil
  then show ?case by simp
next
  case (Cons x xs)
  then have pos: "0 < n_total" by simp
  from Cons.prems have le: "Suc tested + length xs \<le> n_total" by simp
  let ?w = "if test_proxy probe x then working @ [x] else working"
  have "\<exists>ev1. test_loop probe cb n_total (x # xs) tested working ev =
      test_loop probe cb n_total xs (Suc tested) ?w ev1"
    using pos by (auto simp: Let_def)
  then obtain ev1 where e1: "test_loop probe cb n_total (x # xs) tested working ev =
      test_loop probe cb n_total xs (Suc tested) ?w ev1" ..
  from Cons.IH [OF le, of ?w ev1] obtain ev' where
    "test_loop probe cb n_total xs (Suc tested) ?w ev1 =
       Inr (Suc tested + length xs, ?w @ filter (test_proxy probe) xs, ev')" ..
  with e1 show ?case by auto
qed

lemma collect_frame:
  "collect net cb us st n ev = (st', Inr (found, ev')) \<Longrightarrow>
   st' = st\<lparr>proxies := proxies st \<union> (\<Union>u\<in>set us. fetch_proxy_list net u)\<rparr>"
proof (induction us arbitrary: st n ev)
  case (Cons u us)
  from Cons.prems obtain lab where
    lab: "(if cb then map_sum id Some (source_label u) else Inr None) = Inr lab"
    by (auto split: sum.splits)
  with Cons.prems have "\<exists>ev1. collect net cb us (st\<lparr>proxies := proxies st \<union> fetch_proxy_list net u\<rparr>)
      (n + card (fetch_proxy_list net u)) ev1 = (st', Inr (found, ev'))"
    by (auto simp: Let_def)
  then obtain ev1 where "collect net cb us (st\<lparr>proxies := proxies st \<union> fetch_proxy_list net u\<rparr>)
      (n + card (fetch_proxy_list net u)) ev1 = (st', Inr (found, ev'))" ..
  from Cons.IH [OF this] show ?case by (simp add: Un_assoc)
qed simp

lemma collect_total:
  "(cb \<longrightarrow> (\<forall>u\<in>set us. \<exists>l. source_label u = Inr l)) \<Longrightarrow>
   \<exists>st' found ev'. collect net cb us st n ev = (st', Inr (found, ev'))"
proof (induction us arbitrary: st n ev)
  case (Cons u us)
  then show ?case by (cases cb) (auto simp: Let_def)
qed simp

lemma finite_fetch [simp]: "finite (fetch_proxy_list net u)"
  by (simp add: fetch_proxy_list_def split: http_result.splits)

text \<open>
  The progress label of a source is \<open>source.split('/')[-2]\<close>: for the configured
  sources it is the branch or directory name, not the list's name, and the first two
  sources both report \<open>master\<close>.
\<close>

lemma source_labels:
  "map source_label PROXY_SOURCES = [Inr ''master'', Inr ''master'', Inr ''proxies'', Inr ''proxy-list'']"
  by (simp add: PROXY_SOURCES_def source_label_def py_get_def)


lemma config_labels_ok: "\<forall>u\<in>set PROXY_SOURCES. \<exists>l. source_label u = Inr l"
proof -
  have "\<forall>r\<in>set (map source_label PROXY_SOURCES). \<exists>l. r = Inr l"
    by (simp add: source_labels)
  then show ?thesis by simp
qed

lemma scrape_eq_at:
  fixes net :: "url \<Rightarrow> http_result" and st :: scraper
  defines "P \<equiv> proxies st \<union> (\<Union>u\<in>set PROXY_SOURCES. fetch_proxy_list net u)"
  assumes sP: "distinct (sched P)" "set (sched P) = P"
  shows "\<exists>ev. scrape net probe cb sched st =
           (st\<lparr>proxies := P\<rparr>, Inr (filter (test_proxy probe) (sched P), ev))"
proof -
  let ?ev0 = "if cb then [StartScraping] else []"
  from collect_total [of cb PROXY_SOURCES net st 0 ?ev0] config_labels_ok
  obtain st' found ev' where c: "collect net cb PROXY_SOURCES st 0 ?ev0 = (st', Inr (found, ev'))"
    by blast
  from collect_frame [OF c] have st': "st' = st\<lparr>proxies := P\<rparr>" by (simp add: P_def)
  have len: "0 + length (sched P) \<le> card P" using distinct_card [OF sP(1)] sP(2) by simp
  let ?ev1 = "ev' @ (if cb then [CollectionDone (card P) found, StartTesting (card P)] else [])"
  from test_loop_Inr [OF len, of probe cb "[]" ?ev1] obtain ev'' where
    t: "test_loop probe cb (card P) (sched P) 0 [] ?ev1 =
        Inr (length (sched P), filter (test_proxy probe) (sched P), ev'')" by auto
  have "scrape net probe cb sched st = (st\<lparr>proxies := P\<rparr>, Inr (filter (test_proxy probe) (sched P),
      ev'' @ (if cb then [TestingDone (card P) (length (filter (test_proxy probe) (sched P)))
        (success_rate (length (filter (test_proxy probe) (sched P))) (card P))] else [])))"
    using c t by (simp add: scrape_def st' Let_def)
  then show ?thesis by blast
qed

lemma scrape_eq:
  fixes net :: "url \<Rightarrow> http_result"
  assumes fin: "finite (proxies st)"
    and sched: "\<And>A. finite A \<Longrightarrow> distinct (sched A) \<and> set (sched A) = A"
  defines "P \<equiv> proxies st \<union> (\<Union>u\<in>set PROXY_SOURCES. fetch_proxy_list net u)"
  shows "\<exists>ev. scrape net probe cb sched st =
           (st\<lparr>proxies := P\<rparr>, Inr (filter (test_proxy probe) (sched P), ev))"
proof -
  have "finite P" using fin by (simp add: P_def)
  with sched have "distinct (sched P)" "set (sched P) = P" by auto
  then show ?thesis unfolding P_def by (rule scrape_eq_at)
qed

lemma sched_sorted:
  "finite A \<Longrightarrow> distinct (sorted_list_of_set A) \<and> set (sorted_list_of_set A) = A"
  by simp

lemma progress_events_Cons:
  "progress_events ok n (x # xs) t w =
     (if Suc t mod 50 = 0 then [TestingProgress (Suc t) n (length w) (of_nat (Suc t) / of_nat n * 100)] else []) @
     progress_events ok n xs (Suc t) (if ok x then w @ [x] else w)"
proof -
  have upt: "[Suc t..<Suc (t + length (x # xs))] = Suc t # [Suc (Suc t)..<Suc (Suc t + length xs)]"
    by (subst upt_conv_Cons) auto
  have "\<And>i. i \<in> set [Suc (Suc t)..<Suc (Suc t + length xs)] \<Longrightarrow>
      length w + length (filter ok (take (i - Suc t) (x # xs))) =
      length (if ok x then w @ [x] else w) + length (filter ok (take (i - Suc (Suc t)) xs))"
  proof -
    fix i assume "i \<in> set [Suc (Suc t)..<Suc (Suc t + length xs)]"
    then have "i - Suc t = Suc (i - Suc (Suc t))" by auto
    then show "length w + length (filter ok (take (i - Suc t) (x # xs))) =
      length (if ok x then w @ [x] else w) + length (filter ok (take (i - Suc (Suc t)) xs))" by simp
  qed
  then have "map (\<lambda>i. TestingProgress i n (length w + length (filter ok (take (i - Suc t) (x # xs))))
                (of_nat i / of_nat n * 100)) (filter (\<lambda>i. i mod 50 = 0) [Suc (Suc t)..<Suc (Suc t + length xs)]) =
             map (\<lambda>i. TestingProgress i n (length (if ok x then w @ [x] else w) + length (filter ok (take (i - Suc (Suc t)) xs)))
                (of_nat i / of_nat n * 100)) (filter (\<lambda>i. i mod 50 = 0) [Suc (Suc t)..<Suc (Suc t + length xs)])"
    by (intro map_cong refl) auto
  then show ?thesis unfolding progress_events_def upt by simp
qed

lemma test_loop_events:
  assumes "0 < n_total"
  shows "test_loop probe True n_total xs t w ev =
    Inr (t + length xs, w @ filter (test_proxy probe) xs, ev @ progress_events (test_proxy probe) n_total xs t w)"
  using assms
proof (induction xs arbitrary: t w ev)
  case Nil
  then show ?case by (simp add: progress_events_def)
next
  case (Cons x xs)
  show ?case
    using Cons.IH [OF Cons.prems] Cons.prems by (simp add: progress_events_Cons Let_def)
qed

lemma source_label_error:
  "source_label u = Inl IndexError \<longleftrightarrow> CHR ''/'' \<notin> set u"
  "CHR ''/'' \<in> set u \<Longrightarrow> \<exists>l. source_label u = Inr l"
  by (auto simp: source_label_def py_get_def length_py_split filter_empty_conv Suc_le_eq
    dest: filter_empty_conv [THEN iffD1])

lemma fetch_endpoint: "p \<in> fetch_proxy_list net u \<Longrightarrow> is_endpoint p"
  by (auto simp: fetch_proxy_list_def findall_endpoint split: http_result.splits if_splits)

lemma collect_pool:
  "proxies (fst (collect net cb us st n ev)) \<subseteq> proxies st \<union> (\<Union>u\<in>set us. fetch_proxy_list net u)"
proof (induction us arbitrary: st n ev)
  case (Cons u us)
  then show ?case by (fastforce simp: Let_def split: sum.splits)
qed simp

section \<open>Properties of the proxy pool\<close>

text \<open>
  C7. With the configured sources and any completion order of the executor, \<open>scrape\<close>
  raises nothing (no source label is out of range and no progress percentage divides
  by zero), adds every endpoint the sources list to the pool, and returns each pool
  member that passes the validation probe exactly once, and no other.
\<close>

theorem scrape_result:
  fixes net :: "url \<Rightarrow> http_result"
  assumes fin: "finite (proxies st)"
    and sched: "\<And>A. finite A \<Longrightarrow> distinct (sched A) \<and> set (sched A) = A"
  defines "P \<equiv> proxies st \<union> (\<Union>u\<in>set PROXY_SOURCES. fetch_proxy_list net u)"
  shows "\<exists>ws ev. scrape net probe cb sched st = (st\<lparr>proxies := P\<rparr>, Inr (ws, ev)) \<and>
           set ws = {p \<in> P. test_proxy probe p} \<and> distinct ws"
proof -
  from scrape_eq [OF fin sched, of net probe cb] obtain ev where
    e: "scrape net probe cb sched st = (st\<lparr>proxies := P\<rparr>, Inr (filter (test_proxy probe) (sched P), ev))"
    by (auto simp: P_def)
  have "finite P" using fin by (simp add: P_def)
  with sched have "distinct (sched P)" "set (sched P) = P" by auto
  with e show ?thesis by auto
qed

theorem scrape_result_witness:
  "finite (proxies \<lparr>proxies = {}\<rparr>) \<and>
   (\<exists>ws ev. scrape (\<lambda>_. RequestError) (\<lambda>_. Response 200 []) True sorted_list_of_set \<lparr>proxies = {}\<rparr> =
      (\<lparr>proxies = {}\<rparr>\<lparr>proxies := proxies \<lparr>proxies = {}\<rparr> \<union>
         (\<Union>u\<in>set PROXY_SOURCES. fetch_proxy_list (\<lambda>_. RequestError) u)\<rparr>, Inr (ws, ev)) \<and>
      set ws = {p \<in> proxies \<lparr>proxies = {}\<rparr> \<union>
         (\<Union>u\<in>set PROXY_SOURCES. fetch_proxy_list (\<lambda>_. RequestError) u).
           test_proxy (\<lambda>_. Response 200 []) p} \<and> distinct ws)"
  using scrape_result [of "\<lparr>proxies = {}\<rparr>" sorted_list_of_set "\<lambda>_. RequestError"
      "\<lambda>_. Response 200 []" True] sched_sorted
  by simp

text \<open>
  C8. The pool deduplicates: after the collection loop the pool is the union of what
  the sources gave, \<open>total_found\<close> is the sum of the per-source counts, and the pool
  grew by at most that sum.
\<close>

theorem collect_dedup:
  assumes "collect net cb us st n ev = (st', Inr (found, ev'))"
  shows "proxies st' = proxies st \<union> (\<Union>u\<in>set us. fetch_proxy_list net u) \<and>
         found = n + (\<Sum>u\<leftarrow>us. card (fetch_proxy_list net u)) \<and>
         card (proxies st') \<le> card (proxies st) + (found - n)"
proof -
  note c = collect_Inr [OF assms]
  have "card (proxies st') \<le> card (proxies st) + card (\<Union>u\<in>set us. fetch_proxy_list net u)"
    using c card_Un_le by simp
  also have "\<dots> \<le> card (proxies st) + (\<Sum>u\<leftarrow>us. card (fetch_proxy_list net u))"
    using card_UN_list_le by simp
  finally show ?thesis using c by simp
qed

theorem collect_dedup_witness:
  "collect (\<lambda>u. if u = ''a'' then Response 200 ''1.2.3.4:8080''
                 else if u = ''b'' then Response 200 ''1.2.3.4:8080'' else Response 200 ''5.6.7.8:3128'')
     False [''a'', ''b'', ''c''] \<lparr>proxies = {}\<rparr> 0 [] =
     (\<lparr>proxies = {''1.2.3.4:8080'', ''5.6.7.8:3128''}\<rparr>, Inr (3, [])) \<and>
   card (proxies \<lparr>proxies = {''1.2.3.4:8080'', ''5.6.7.8:3128''}\<rparr>)
     \<le> card (proxies \<lparr>proxies = ({} :: proxy set)\<rparr>) + (3 - 0)"
proof -
  have c: "collect (\<lambda>u. if u = ''a'' then Response 200 ''1.2.3.4:8080''
                 else if u = ''b'' then Response 200 ''1.2.3.4:8080'' else Response 200 ''5.6.7.8:3128'')
     False [''a'', ''b'', ''c''] \<lparr>proxies = {}\<rparr> 0 [] =
     (\<lparr>proxies = {''1.2.3.4:8080'', ''5.6.7.8:3128''}\<rparr>, Inr (3, []))"
    by code_simp
  from collect_dedup [OF c] have "card (proxies \<lparr>proxies = {''1.2.3.4:8080'', ''5.6.7.8:3128''}\<rparr>)
     \<le> card (proxies \<lparr>proxies = ({} :: proxy set)\<rparr>) + (3 - 0)" by blast
  with c show ?thesis by (rule conjI)
qed

text \<open>
  C19. The validation loop, with a callback and a non-zero total, reports progress at
  every 50th completion \<open>i\<close> with the number of working endpoints among the first
  \<open>i - 1\<close> completions: the message is built before the \<open>i\<close>-th result is added.
\<close>

theorem test_loop_progress:
  assumes "0 < n_total"
  shows "test_loop probe True n_total xs 0 [] ev =
    Inr (length xs, filter (test_proxy probe) xs,
         ev @ map (\<lambda>i. TestingProgress i n_total (length (filter (test_proxy probe) (take (i - 1) xs)))
                         (of_nat i / of_nat n_total * 100))
                  (filter (\<lambda>i. i mod 50 = 0) [1..<Suc (length xs)]))"
  using test_loop_events [OF assms, of probe xs 0 "[]" ev] by (simp add: progress_events_def)

theorem test_loop_progress_witness:
  "0 < (50::nat) \<and>
   test_loop (\<lambda>_. Response 200 []) True 50 (replicate 50 ''10.0.0.1:8080'') 0 [] [] =
     Inr (50, replicate 50 ''10.0.0.1:8080'', [TestingProgress 50 50 49 100])"
proof -
  have "filter (\<lambda>i. i mod 50 = 0) [1..<Suc 50] = [50::nat]"
    by (simp add: upt_rec)
  then show ?thesis
    using test_loop_progress [of 50 "\<lambda>_. Response 200 []" "replicate 50 ''10.0.0.1:8080''" "[]"]
    by (simp add: test_proxy_def)
qed


text \<open>
  C20. The pool only ever holds well-formed endpoints: if it does before \<open>scrape\<close>, it
  does after, whatever the sources return and whether or not the run raises. The
  pool of a new \<open>ProxyScraper\<close> is empty, so every pool the program reaches is
  well-formed, and so is every proxy \<open>scrape\<close> returns.
\<close>

theorem scrape_wf:
  "scraper_wf st \<Longrightarrow> scraper_wf (fst (scrape net probe cb sched st))"
proof -
  assume wf: "scraper_wf st"
  have "fst (scrape net probe cb sched st) = fst (collect net cb PROXY_SOURCES st 0 (if cb then [StartScraping] else []))"
    by (simp add: scrape_def Let_def split: prod.splits sum.splits)
  with collect_pool [of net cb PROXY_SOURCES st 0] wf show ?thesis
    unfolding scraper_wf_def by (fastforce dest: fetch_endpoint)
qed

theorem scrape_wf_witness:
  "scraper_wf (fst (scrape (\<lambda>_. Response 200 ''1.2.3.4:80 5.6.7.8:3128'') (\<lambda>_. RequestError) True
     sorted_list_of_set \<lparr>proxies = {}\<rparr>))"
  using scrape_wf [of "\<lparr>proxies = {}\<rparr>" "\<lambda>_. Response 200 ''1.2.3.4:80 5.6.7.8:3128''"
      "\<lambda>_. RequestError" True sorted_list_of_set]
  by (simp add: scraper_wf_def)

text \<open>
  C21. The error path of the source loop: with a status callback, a source URL with no
  slash makes \<open>source.split('/')[-2]\<close> raise \<open>IndexError\<close> before that source is
  fetched; the loop stops there, and the pool keeps what the earlier sources gave.
\<close>

theorem collect_raises:
  assumes "\<forall>x\<in>set pre. CHR ''/'' \<in> set x" "CHR ''/'' \<notin> set u"
  shows "collect net True (pre @ u # post) st n ev =
    (st\<lparr>proxies := proxies st \<union> (\<Union>x\<in>set pre. fetch_proxy_list net x)\<rparr>, Inl IndexError)"
  using assms(1)
proof (induction pre arbitrary: st n ev)
  case Nil
  from assms(2) have "source_label u = Inl IndexError" by (simp add: source_label_error)
  then show ?case by simp
next
  case (Cons x pre)
  from Cons.prems have "CHR ''/'' \<in> set x" by simp
  then obtain l where "source_label x = Inr l" using source_label_error(2) by blast
  with Cons show ?case by (simp add: Let_def Un_assoc)
qed

theorem collect_raises_witness:
  "collect (\<lambda>_. Response 200 ''1.2.3.4:80'') True [''https://host/list.txt'', ''localhost'', ''https://host/b'']
     \<lparr>proxies = {}\<rparr> 0 [] = (\<lparr>proxies = fetch_proxy_list (\<lambda>_. Response 200 ''1.2.3.4:80'') ''https://host/list.txt''\<rparr>, Inl IndexError)"
  using collect_raises [of "[''https://host/list.txt'']" "''localhost''" "\<lambda>_. Response 200 ''1.2.3.4:80''"
      "[''https://host/b'']" "\<lparr>proxies = {}\<rparr>" 0 "[]"]
  by simp

end
