(* ===== verification/ViewAdder.thy ===== *)
theory ViewAdder
  imports Prelude
begin

text \<open>
  \<open>ViewAdder\<close> (src/views_adder.py): the dispatch engine. Its state is the record
  \<open>stats\<close> (\<open>success_count\<close>, \<open>error_count\<close>, \<open>active_proxies\<close>). \<open>add_view\<close> is one
  request through one proxy; its outcome, a response status or an exception of
  \<open>session.get\<close>, is a parameter (\<open>outcome\<close>). \<open>process_views\<close> runs one asyncio task per
  proxy behind an \<open>asyncio.Semaphore(max_concurrent)\<close>; asyncio interleaves the tasks
  only at their awaits, so each task is a small state machine and a run is any
  interleaving of their steps (\<open>pv_step\<close>):
  \<^item> \<open>Waiting\<close> to \<open>InFlight\<close>: \<open>async with semaphore\<close> takes a slot (value above 0);
  \<^item> \<open>InFlight\<close> to \<open>Counted r\<close>: the request resolves with outcome \<open>r\<close> and the
    counters are updated, with no await between the test of the status and the
    increments, so the update is one atomic step;
  \<^item> \<open>Counted r\<close> to \<open>Released r\<close>: the task leaves the response context and the
    semaphore, giving the slot back.
  Any waiting task may take a free slot (the semaphore's FIFO wake-up order is one of
  these choices), so the invariants hold for the real scheduler as well.
\<close>

record stats =
  success_count :: nat
  error_count :: nat
  active_proxies :: "proxy set"

datatype outcome = Status nat | ClientError

text \<open>\<open>__init__\<close> (lines 6-10).\<close>

definition init_stats :: stats where
  "init_stats = \<lparr>success_count = 0, error_count = 0, active_proxies = {}\<rparr>"

text \<open>\<open>add_view\<close> (lines 12-40): the new statistics and the returned flag.\<close>

definition add_view :: "proxy \<Rightarrow> outcome \<Rightarrow> stats \<Rightarrow> stats \<times> bool" where
  "add_view px r s =
     (case r of
        Status code \<Rightarrow>
          if code = 200
          then (s\<lparr>success_count := Suc (success_count s),
                  active_proxies := insert px (active_proxies s)\<rparr>, True)
          else (s\<lparr>error_count := Suc (error_count s)\<rparr>, False)
      | ClientError \<Rightarrow> (s\<lparr>error_count := Suc (error_count s)\<rparr>, False))"

text \<open>\<open>get_stats\<close> (lines 68-76): views added, errors, number of active proxies.\<close>

definition get_stats :: "stats \<Rightarrow> nat \<times> nat \<times> nat" where
  "get_stats s = (success_count s, error_count s, card (active_proxies s))"

text \<open>\<open>reset_stats\<close> (lines 78-84).\<close>

definition reset_stats :: "stats \<Rightarrow> stats" where
  "reset_stats s = s\<lparr>success_count := 0, error_count := 0, active_proxies := {}\<rparr>"

section \<open>process_views as interleaved tasks\<close>

datatype task = Waiting | InFlight | Counted outcome | Released outcome

record pv_state =
  tasks :: "task list"
  sem :: nat
  stats :: stats

text \<open>
  Lines 46-57: one waiting task per proxy, the semaphore at \<open>max_concurrent\<close>; the
  statistics are those the engine holds when the call starts (they are not reset here).
\<close>

definition pv_init :: "proxy list \<Rightarrow> nat \<Rightarrow> stats \<Rightarrow> pv_state" where
  "pv_init pxs max_conc s = \<lparr>tasks = replicate (length pxs) Waiting, sem = max_conc, stats = s\<rparr>"

text \<open>\<open>bounded_add_view\<close> (lines 50-52) around \<open>add_view\<close>, one step at a time.\<close>

inductive pv_step :: "proxy list \<Rightarrow> pv_state \<Rightarrow> pv_state \<Rightarrow> bool" for pxs where
  acquire: "i < length (tasks s) \<Longrightarrow> tasks s ! i = Waiting \<Longrightarrow> 0 < sem s \<Longrightarrow>
    pv_step pxs s (s\<lparr>tasks := (tasks s)[i := InFlight], sem := sem s - 1\<rparr>)"
| respond: "i < length (tasks s) \<Longrightarrow> tasks s ! i = InFlight \<Longrightarrow>
    pv_step pxs s (s\<lparr>tasks := (tasks s)[i := Counted r],
                     stats := fst (add_view (pxs ! i) r (stats s))\<rparr>)"
| release: "i < length (tasks s) \<Longrightarrow> tasks s ! i = Counted r \<Longrightarrow>
    pv_step pxs s (s\<lparr>tasks := (tasks s)[i := Released r], sem := Suc (sem s)\<rparr>)"

inductive pv_reach :: "proxy list \<Rightarrow> nat \<Rightarrow> stats \<Rightarrow> pv_state \<Rightarrow> bool" for pxs max_conc s0 where
  start: "pv_reach pxs max_conc s0 (pv_init pxs max_conc s0)"
| step: "pv_reach pxs max_conc s0 s \<Longrightarrow> pv_step pxs s t \<Longrightarrow> pv_reach pxs max_conc s0 t"

text \<open>\<open>asyncio.gather\<close> (line 60) returns when every task has left the semaphore.\<close>

definition pv_done :: "pv_state \<Rightarrow> bool" where
  "pv_done s \<longleftrightarrow> list_all (\<lambda>t. case t of Released _ \<Rightarrow> True | _ \<Rightarrow> False) (tasks s)"

text \<open>The dictionary \<open>process_views\<close> returns (lines 62-66).\<close>

definition process_views_result :: "pv_state \<Rightarrow> nat \<times> nat \<times> nat" where
  "process_views_result s = get_stats (stats s)"

text \<open>
  The same loop run one request at a time, in submission order: the reference the
  interleaved runs are compared with.
\<close>

fun seq_views :: "proxy list \<Rightarrow> outcome list \<Rightarrow> stats \<Rightarrow> stats" where
  "seq_views (px # pxs) (r # rs) s = seq_views pxs rs (fst (add_view px r s))"
| "seq_views _ _ s = s"

section \<open>Counting the tasks\<close>

fun outcome_of :: "task \<Rightarrow> outcome option" where
  "outcome_of (Counted r) = Some r"
| "outcome_of (Released r) = Some r"
| "outcome_of _ = None"

definition ok_outcome :: "outcome \<Rightarrow> bool" where
  "ok_outcome r \<longleftrightarrow> r = Status 200"

definition task_ok :: "task \<Rightarrow> bool" where
  "task_ok t \<longleftrightarrow> (case outcome_of t of Some r \<Rightarrow> ok_outcome r | None \<Rightarrow> False)"

definition task_err :: "task \<Rightarrow> bool" where
  "task_err t \<longleftrightarrow> (case outcome_of t of Some r \<Rightarrow> \<not> ok_outcome r | None \<Rightarrow> False)"

fun busy :: "task \<Rightarrow> bool" where
  "busy InFlight = True"
| "busy (Counted _) = True"
| "busy _ = False"

definition ok_set :: "proxy list \<Rightarrow> task list \<Rightarrow> proxy set" where
  "ok_set pxs ts = (\<lambda>j. pxs ! j) ` set (filter (\<lambda>j. task_ok (ts ! j)) [0..<length ts])"

text \<open>Progress measure of a run: each task moves through four states in order.\<close>

fun task_rank :: "task \<Rightarrow> nat" where
  "task_rank Waiting = 0"
| "task_rank InFlight = 1"
| "task_rank (Counted _) = 2"
| "task_rank (Released _) = 3"

definition pv_rank :: "pv_state \<Rightarrow> nat" where
  "pv_rank s = sum_list (map task_rank (tasks s))"

text \<open>The invariant: the counters are the base plus the outcomes of the counted tasks.\<close>

definition pv_inv :: "proxy list \<Rightarrow> nat \<Rightarrow> stats \<Rightarrow> pv_state \<Rightarrow> bool" where
  "pv_inv pxs max_conc s0 s \<longleftrightarrow>
     length (tasks s) = length pxs \<and>
     sem s + length (filter busy (tasks s)) = max_conc \<and>
     stats s = s0\<lparr>success_count := success_count s0 + length (filter task_ok (tasks s)),
                  error_count := error_count s0 + length (filter task_err (tasks s)),
                  active_proxies := active_proxies s0 \<union> ok_set pxs (tasks s)\<rparr>"

section \<open>The invariant\<close>

lemma filter_upt_update_cong:
  "i < length ts \<Longrightarrow> P x = P (ts ! i) \<Longrightarrow>
   filter (\<lambda>j. P (ts[i := x] ! j)) [0..<length ts] = filter (\<lambda>j. P (ts ! j)) [0..<length ts]"
  by (rule filter_cong) (auto simp: nth_list_update)

lemma ok_set_update_same:
  "i < length ts \<Longrightarrow> task_ok x = task_ok (ts ! i) \<Longrightarrow> ok_set pxs (ts[i := x]) = ok_set pxs ts"
  unfolding ok_set_def by (simp add: filter_upt_update_cong)

lemma ok_set_update_new:
  "i < length ts \<Longrightarrow> \<not> task_ok (ts ! i) \<Longrightarrow> task_ok x \<Longrightarrow>
   ok_set pxs (ts[i := x]) = insert (pxs ! i) (ok_set pxs ts)"
  unfolding ok_set_def by (auto simp: nth_list_update split: if_splits)

lemma add_view_stats [stats_simps]:
  "fst (add_view px r s) =
     s\<lparr>success_count := success_count s + (if ok_outcome r then 1 else 0),
       error_count := error_count s + (if ok_outcome r then 0 else 1),
       active_proxies := (if ok_outcome r then insert px (active_proxies s) else active_proxies s)\<rparr>"
  by (cases r) (simp_all add: add_view_def ok_outcome_def)

lemma task_simps [stats_simps]:
  "\<not> task_ok Waiting" "\<not> task_ok InFlight" "\<not> task_err Waiting" "\<not> task_err InFlight"
  "task_ok (Counted r) = ok_outcome r" "task_ok (Released r) = ok_outcome r"
  "task_err (Counted r) = (\<not> ok_outcome r)" "task_err (Released r) = (\<not> ok_outcome r)"
  by (simp_all add: task_ok_def task_err_def)

lemma pv_inv_init: "pv_inv pxs m s0 (pv_init pxs m s0)"
  by (simp add: pv_inv_def pv_init_def ok_set_def stats_simps)

lemma pv_step_inv:
  assumes "pv_step pxs s t" "pv_inv pxs m s0 s"
  shows "pv_inv pxs m s0 t"
  using assms
proof (induction rule: pv_step.induct)
  case (acquire i s)
  let ?ts = "tasks s"
  have b: "length (filter busy (?ts[i := InFlight])) = Suc (length (filter busy ?ts))"
    using length_filter_list_update [OF acquire.hyps(1), of busy InFlight] acquire.hyps(2) by simp
  have ok: "length (filter task_ok (?ts[i := InFlight])) = length (filter task_ok ?ts)"
    using length_filter_list_update [OF acquire.hyps(1), of task_ok InFlight] acquire.hyps(2)
    by (simp add: stats_simps)
  have err: "length (filter task_err (?ts[i := InFlight])) = length (filter task_err ?ts)"
    using length_filter_list_update [OF acquire.hyps(1), of task_err InFlight] acquire.hyps(2)
    by (simp add: stats_simps)
  have os: "ok_set pxs (?ts[i := InFlight]) = ok_set pxs ?ts"
    using acquire.hyps by (simp add: ok_set_update_same stats_simps)
  from acquire.prems acquire.hyps(3) b ok err os show ?case by (simp add: pv_inv_def)
next
  case (respond i s r)
  let ?ts = "tasks s"
  have b: "length (filter busy (?ts[i := Counted r])) = length (filter busy ?ts)"
    using length_filter_list_update [OF respond.hyps(1), of busy "Counted r"] respond.hyps(2) by simp
  have ok: "length (filter task_ok (?ts[i := Counted r])) =
      length (filter task_ok ?ts) + (if ok_outcome r then 1 else 0)"
    using length_filter_list_update [OF respond.hyps(1), of task_ok "Counted r"] respond.hyps(2)
    by (simp add: stats_simps)
  have err: "length (filter task_err (?ts[i := Counted r])) =
      length (filter task_err ?ts) + (if ok_outcome r then 0 else 1)"
    using length_filter_list_update [OF respond.hyps(1), of task_err "Counted r"] respond.hyps(2)
    by (simp add: stats_simps)
  have os: "ok_set pxs (?ts[i := Counted r]) =
      (if ok_outcome r then insert (pxs ! i) (ok_set pxs ?ts) else ok_set pxs ?ts)"
    using respond.hyps by (simp add: ok_set_update_same ok_set_update_new stats_simps)
  from respond.prems b ok err os show ?case by (simp add: pv_inv_def stats_simps)
next
  case (release i s r)
  let ?ts = "tasks s"
  have b: "Suc (length (filter busy (?ts[i := Released r]))) = length (filter busy ?ts)"
    using length_filter_list_update [OF release.hyps(1), of busy "Released r"] release.hyps(2) by simp
  have ok: "length (filter task_ok (?ts[i := Released r])) = length (filter task_ok ?ts)"
    using length_filter_list_update [OF release.hyps(1), of task_ok "Released r"] release.hyps(2)
    by (simp add: stats_simps)
  have err: "length (filter task_err (?ts[i := Released r])) = length (filter task_err ?ts)"
    using length_filter_list_update [OF release.hyps(1), of task_err "Released r"] release.hyps(2)
    by (simp add: stats_simps)
  have os: "ok_set pxs (?ts[i := Released r]) = ok_set pxs ?ts"
    using release.hyps by (simp add: ok_set_update_same stats_simps)
  from release.prems b ok err os show ?case by (simp add: pv_inv_def)
qed

lemma pv_reach_inv: "pv_reach pxs m s0 s \<Longrightarrow> pv_inv pxs m s0 s"
  by (induction rule: pv_reach.induct) (auto intro: pv_inv_init pv_step_inv)

section \<open>Counting lemmas and the one-at-a-time schedule\<close>

lemma ok_err_done:
  "length (filter task_ok ts) + length (filter task_err ts) =
   length (filter (\<lambda>t. outcome_of t \<noteq> None) ts)"
  by (induction ts) (auto simp: task_ok_def task_err_def split: option.splits)

lemma length_filter_nth:
  "length (filter (\<lambda>j. P (xs ! j)) [0..<length xs]) = length (filter P xs)"
proof -
  have "length (filter P xs) = length (filter P (map (\<lambda>j. xs ! j) [0..<length xs]))"
    by (simp add: map_nth)
  then show ?thesis by (simp add: filter_map comp_def)
qed

lemma card_ok_set: "card (ok_set pxs ts) \<le> length (filter task_ok ts)"
proof -
  let ?I = "set (filter (\<lambda>j. task_ok (ts ! j)) [0..<length ts])"
  have "card (ok_set pxs ts) \<le> card ?I" unfolding ok_set_def by (rule card_image_le) simp
  also have "card ?I = length (filter (\<lambda>j. task_ok (ts ! j)) [0..<length ts])"
    by (rule distinct_card) simp
  finally show ?thesis by (simp add: length_filter_nth)
qed

lemma ok_set_subset: "length ts = length pxs \<Longrightarrow> ok_set pxs ts \<subseteq> set pxs"
  by (auto simp: ok_set_def)

lemma pv_init_only:
  "pv_reach pxs 0 s0 s \<Longrightarrow> s = pv_init pxs 0 s0"
proof (induction rule: pv_reach.induct)
  case start
  then show ?case by simp
next
  case (step s t)
  from step.hyps(2) step.IH show ?case
    by (cases rule: pv_step.cases) (auto simp: pv_init_def)
qed

lemma rank_le: "sum_list (map task_rank ts) \<le> 3 * length ts"
proof (induction ts)
  case (Cons t ts)
  then show ?case by (cases t) auto
qed simp

lemma ok_set_Cons:
  "ok_set (p # ps) (t # ts) = (if task_ok t then insert p (ok_set ps ts) else ok_set ps ts)"
proof -
  have u: "[0..<length (t # ts)] = 0 # map Suc [0..<length ts]"
    by (simp add: upt_conv_Cons map_Suc_upt del: upt_Suc)
  show ?thesis unfolding ok_set_def u by (auto simp: filter_map comp_def image_image)
qed

lemma seq_views_closed:
  "length pxs = length rs \<Longrightarrow>
   seq_views pxs rs s0 =
     s0\<lparr>success_count := success_count s0 + length (filter ok_outcome rs),
        error_count := error_count s0 + length (filter (\<lambda>r. \<not> ok_outcome r) rs),
        active_proxies := active_proxies s0 \<union> ok_set pxs (map Released rs)\<rparr>"
proof (induction pxs rs arbitrary: s0 rule: list_induct2)
  case Nil
  then show ?case by (simp add: ok_set_def)
next
  case (Cons p ps r rs)
  then show ?case by (auto simp: stats_simps ok_set_Cons)
qed

lemma all_released:
  "list_all (\<lambda>t. case t of Released _ \<Rightarrow> True | _ \<Rightarrow> False) ts \<Longrightarrow> \<exists>rs. ts = map Released rs"
proof (induction ts)
  case (Cons t ts)
  then obtain rs where "ts = map Released rs" by auto
  moreover from Cons.prems obtain r where "t = Released r" by (cases t) auto
  ultimately show ?case by (metis list.simps(9))
qed simp

lemma seq_views_snoc:
  "length xs = length ys \<Longrightarrow>
   seq_views (xs @ [x]) (ys @ [y]) s = fst (add_view x y (seq_views xs ys s))"
  by (induction xs ys arbitrary: s rule: list_induct2) simp_all

lemma released_prefix_update:
  assumes "k < length rs"
  shows "(map Released (take k rs) @ replicate (length rs - k) Waiting)[k := Released (rs ! k)] =
         map Released (take (Suc k) rs) @ replicate (length rs - Suc k) Waiting"
proof -
  from assms have "length rs - k = Suc (length rs - Suc k)" by simp
  with assms show ?thesis by (simp add: list_update_append take_Suc_conv_app_nth)
qed

lemma pv_reach_sequential_prefix:
  assumes "0 < m" "length rs = length pxs" "k \<le> length pxs"
  shows "pv_reach pxs m s0
     \<lparr>tasks = map Released (take k rs) @ replicate (length pxs - k) Waiting, sem = m,
      stats = seq_views (take k pxs) (take k rs) s0\<rparr>"
  using assms(3)
proof (induction k)
  case 0
  show ?case using pv_reach.start [of pxs m s0] by (simp add: pv_init_def)
next
  case (Suc k)
  then have k: "k < length pxs" by simp
  let ?S = "\<lparr>tasks = map Released (take k rs) @ replicate (length pxs - k) Waiting, sem = m,
      stats = seq_views (take k pxs) (take k rs) s0\<rparr>"
  from Suc.IH k have r0: "pv_reach pxs m s0 ?S" by simp
  have len: "k < length (tasks ?S)" using k assms(2) by simp
  have w: "tasks ?S ! k = Waiting" using k assms(2) by (simp add: nth_append)
  define S1 where "S1 = ?S\<lparr>tasks := (tasks ?S)[k := InFlight], sem := sem ?S - 1\<rparr>"
  have r1: "pv_reach pxs m s0 S1"
    using pv_reach.step [OF r0 pv_step.acquire [OF len w]] assms(1) by (simp add: S1_def)
  define S2 where "S2 = S1\<lparr>tasks := (tasks S1)[k := Counted (rs ! k)],
      stats := fst (add_view (pxs ! k) (rs ! k) (stats S1))\<rparr>"
  have r2: "pv_reach pxs m s0 S2"
    using pv_reach.step [OF r1 pv_step.respond [of k S1]] len by (simp add: S1_def S2_def)
  define S3 where "S3 = S2\<lparr>tasks := (tasks S2)[k := Released (rs ! k)], sem := Suc (sem S2)\<rparr>"
  have r3: "pv_reach pxs m s0 S3"
    using pv_reach.step [OF r2 pv_step.release [of k S2]] len by (simp add: S1_def S2_def S3_def)
  have "S3 = \<lparr>tasks = map Released (take (Suc k) rs) @ replicate (length pxs - Suc k) Waiting,
      sem = m, stats = seq_views (take (Suc k) pxs) (take (Suc k) rs) s0\<rparr>"
    using assms k released_prefix_update [of k rs]
    by (simp add: S1_def S2_def S3_def seq_views_snoc take_Suc_conv_app_nth)
  with r3 show ?case by simp
qed

lemma pv_reach_sequential:
  "0 < m \<Longrightarrow> length rs = length pxs \<Longrightarrow>
   pv_reach pxs m s0 \<lparr>tasks = map Released rs, sem = m, stats = seq_views pxs rs s0\<rparr>"
  using pv_reach_sequential_prefix [of m rs pxs "length pxs" s0] by simp

text \<open>A finished run has applied every outcome, as the sequential loop would.\<close>

lemma pv_done_sequential:
  assumes "pv_reach pxs m s0 s" "pv_done s"
  shows "\<exists>rs. tasks s = map Released rs \<and> stats s = seq_views pxs rs s0"
proof -
  from assms(2) obtain rs where rs: "tasks s = map Released rs"
    unfolding pv_done_def by (blast dest: all_released)
  from pv_reach_inv [OF assms(1)] have inv: "pv_inv pxs m s0 s" .
  then have "length pxs = length rs" using rs by (simp add: pv_inv_def)
  with inv rs have "stats s = seq_views pxs rs s0"
    by (simp add: pv_inv_def seq_views_closed comp_def stats_simps)
  with rs show ?thesis by blast
qed

section \<open>Two sample runs\<close>

text \<open>
  Two proxies, the first answering 200 and the second failing, with the configured
  800 slots: a finished run, and the state after the first task took its slot.
\<close>

lemma sample_run_done:
  "pv_reach [''1.2.3.4:8080'', ''5.6.7.8:3128''] 800 init_stats
     \<lparr>tasks = [Released (Status 200), Released ClientError], sem = 800,
      stats = \<lparr>success_count = 1, error_count = 1, active_proxies = {''1.2.3.4:8080''}\<rparr>\<rparr>"
  using pv_reach_sequential [of 800 "[Status 200, ClientError]" "[''1.2.3.4:8080'', ''5.6.7.8:3128'']" init_stats]
  by (simp add: init_stats_def add_view_def)

lemma sample_run_step:
  "pv_step [''1.2.3.4:8080'', ''5.6.7.8:3128''] (pv_init [''1.2.3.4:8080'', ''5.6.7.8:3128''] 800 init_stats) \<lparr>tasks = [InFlight, Waiting], sem = 799, stats = init_stats\<rparr>"
proof -
  have "pv_step [''1.2.3.4:8080'', ''5.6.7.8:3128''] (pv_init [''1.2.3.4:8080'', ''5.6.7.8:3128''] 800 init_stats)
      ((pv_init [''1.2.3.4:8080'', ''5.6.7.8:3128''] 800 init_stats)\<lparr>tasks := (tasks (pv_init [''1.2.3.4:8080'', ''5.6.7.8:3128''] 800 init_stats))[0 := InFlight],
         sem := sem (pv_init [''1.2.3.4:8080'', ''5.6.7.8:3128''] 800 init_stats) - 1\<rparr>)"
    by (rule pv_step.acquire) (simp_all add: pv_init_def)
  then show ?thesis by (simp add: pv_init_def)
qed

lemma sample_run_inflight:
  "pv_reach [''1.2.3.4:8080'', ''5.6.7.8:3128''] 800 init_stats \<lparr>tasks = [InFlight, Waiting], sem = 799, stats = init_stats\<rparr>"
  by (rule pv_reach.step [OF pv_reach.start sample_run_step])

section \<open>Properties of process_views\<close>

text \<open>
  C1. Every dispatch attempt of a run started from reset statistics resolves to exactly
  one outcome: in every reachable state the success and error counters add up to the
  number of requests that have resolved, every active proxy is one of the submitted
  proxies, and there are no more active proxies than successes.
\<close>

theorem dispatch_accounting:
  assumes "pv_reach pxs m init_stats s"
  shows "success_count (stats s) + error_count (stats s) =
           length (filter (\<lambda>t. outcome_of t \<noteq> None) (tasks s)) \<and>
         active_proxies (stats s) \<subseteq> set pxs \<and>
         card (active_proxies (stats s)) \<le> success_count (stats s)"
proof -
  from pv_reach_inv [OF assms] have inv: "pv_inv pxs m init_stats s" .
  then have "length (tasks s) = length pxs" by (simp add: pv_inv_def)
  with inv show ?thesis
    by (simp add: pv_inv_def init_stats_def ok_err_done card_ok_set ok_set_subset)
qed

theorem dispatch_accounting_witness:
  "let S = \<lparr>tasks = [Released (Status 200), Released ClientError], sem = 800,
      stats = \<lparr>success_count = 1, error_count = 1, active_proxies = {''1.2.3.4:8080''}\<rparr>\<rparr> in
   pv_reach [''1.2.3.4:8080'', ''5.6.7.8:3128''] 800 init_stats S \<and>
   success_count (stats S) + error_count (stats S) =
     length (filter (\<lambda>t. outcome_of t \<noteq> None) (tasks S)) \<and>
   active_proxies (stats S) \<subseteq> set [''1.2.3.4:8080'', ''5.6.7.8:3128''] \<and>
   card (active_proxies (stats S)) \<le> success_count (stats S)"
  using sample_run_done dispatch_accounting [OF sample_run_done] by (simp only: Let_def)

text \<open>
  C2. The concurrency bound: in every reachable state of a run with
  \<open>max_concurrent = m\<close>, at most \<open>m\<close> requests hold a semaphore slot.
\<close>

theorem dispatch_in_flight_bound:
  "pv_reach pxs m s0 s \<Longrightarrow> length (filter busy (tasks s)) \<le> m"
  by (drule pv_reach_inv) (simp add: pv_inv_def)

theorem dispatch_in_flight_bound_witness:
  "pv_reach [''1.2.3.4:8080'', ''5.6.7.8:3128''] 800 init_stats \<lparr>tasks = [InFlight, Waiting], sem = 799, stats = init_stats\<rparr> \<and>
   length (filter busy (tasks \<lparr>tasks = [InFlight, Waiting], sem = 799, stats = init_stats\<rparr>)) \<le> 800"
  using sample_run_inflight dispatch_in_flight_bound [OF sample_run_inflight] by simp

text \<open>
  C3. Concurrency does not change the result: when every task has finished, the
  statistics are those of the one-request-at-a-time loop over the proxies in
  submission order with the same outcomes, from the same starting statistics.
\<close>

theorem dispatch_equiv_sequential:
  assumes "pv_reach pxs m s0 s" "pv_done s"
  shows "\<exists>rs. tasks s = map Released rs \<and> stats s = seq_views pxs rs s0"
  using pv_done_sequential [OF assms] .

theorem dispatch_equiv_sequential_witness:
  "let S = \<lparr>tasks = [Released (Status 200), Released ClientError], sem = 800,
      stats = \<lparr>success_count = 1, error_count = 1, active_proxies = {''1.2.3.4:8080''}\<rparr>\<rparr> in
   pv_reach [''1.2.3.4:8080'', ''5.6.7.8:3128''] 800 init_stats S \<and> pv_done S \<and>
   (\<exists>rs. tasks S = map Released rs \<and> stats S = seq_views [''1.2.3.4:8080'', ''5.6.7.8:3128''] rs init_stats)"
proof -
  have d: "pv_done \<lparr>tasks = [Released (Status 200), Released ClientError], sem = 800,
      stats = \<lparr>success_count = 1, error_count = 1, active_proxies = {''1.2.3.4:8080''}\<rparr>\<rparr>" by (simp add: pv_done_def)
  show ?thesis
    using sample_run_done d dispatch_equiv_sequential [OF sample_run_done d] by (simp only: Let_def)
qed

text \<open>
  C4. No deadlock: with at least one slot, every reachable state in which some task
  has not finished has a next step, so \<open>asyncio.gather\<close> is never stuck.
\<close>

theorem dispatch_progress:
  assumes "0 < m" "pv_reach pxs m s0 s" "\<not> pv_done s"
  shows "\<exists>t. pv_step pxs s t"
proof (cases "\<exists>i < length (tasks s). busy (tasks s ! i)")
  case True
  then obtain i where i: "i < length (tasks s)" "busy (tasks s ! i)" by blast
  show ?thesis
  proof (cases "tasks s ! i")
    case InFlight
    with i show ?thesis by (blast intro: pv_step.respond)
  next
    case (Counted r)
    with i show ?thesis by (blast intro: pv_step.release)
  qed (use i in auto)
next
  case False
  then have "length (filter busy (tasks s)) = 0"
    by (auto simp: filter_empty_conv in_set_conv_nth)
  with pv_reach_inv [OF assms(2)] assms(1) have sem: "0 < sem s" by (simp add: pv_inv_def)
  from assms(3) obtain i where i: "i < length (tasks s)"
      "\<not> (case tasks s ! i of Released _ \<Rightarrow> True | _ \<Rightarrow> False)"
    by (auto simp: pv_done_def list_all_length)
  with False have "tasks s ! i = Waiting" by (cases "tasks s ! i") auto
  with i sem show ?thesis by (blast intro: pv_step.acquire)
qed

theorem dispatch_progress_witness:
  "0 < (800::nat) \<and> pv_reach [''1.2.3.4:8080'', ''5.6.7.8:3128''] 800 init_stats \<lparr>tasks = [InFlight, Waiting], sem = 799, stats = init_stats\<rparr> \<and>
   \<not> pv_done \<lparr>tasks = [InFlight, Waiting], sem = 799, stats = init_stats\<rparr> \<and> (\<exists>t. pv_step [''1.2.3.4:8080'', ''5.6.7.8:3128''] \<lparr>tasks = [InFlight, Waiting], sem = 799, stats = init_stats\<rparr> t)"
proof -
  have nd: "\<not> pv_done \<lparr>tasks = [InFlight, Waiting], sem = 799, stats = init_stats\<rparr>" by (simp add: pv_done_def)
  show ?thesis
    using dispatch_progress [OF _ sample_run_inflight nd] sample_run_inflight nd by simp
qed

text \<open>
  C5. Termination: every step moves one task one state further, so the progress
  measure grows by one at each step and never exceeds three steps per proxy; a run of
  \<open>process_views\<close> over \<open>n\<close> proxies ends after at most \<open>3 n\<close> steps.
\<close>

theorem dispatch_terminates:
  "pv_step pxs s t \<Longrightarrow>
   pv_rank t = Suc (pv_rank s) \<and> length (tasks t) = length (tasks s) \<and>
   pv_rank t \<le> 3 * length (tasks t)"
proof (induction rule: pv_step.induct)
  case (acquire i s)
  from sum_list_map_update [OF acquire(1), of task_rank InFlight] acquire(2) show ?case
    using rank_le [of "(tasks s)[i := InFlight]"] by (simp add: pv_rank_def)
next
  case (respond i s r)
  from sum_list_map_update [OF respond(1), of task_rank "Counted r"] respond(2) show ?case
    using rank_le [of "(tasks s)[i := Counted r]"] by (simp add: pv_rank_def)
next
  case (release i s r)
  from sum_list_map_update [OF release(1), of task_rank "Released r"] release(2) show ?case
    using rank_le [of "(tasks s)[i := Released r]"] by (simp add: pv_rank_def)
qed

theorem dispatch_terminates_witness:
  "pv_step [''1.2.3.4:8080'', ''5.6.7.8:3128''] (pv_init [''1.2.3.4:8080'', ''5.6.7.8:3128''] 800 init_stats) \<lparr>tasks = [InFlight, Waiting], sem = 799, stats = init_stats\<rparr> \<and>
   pv_rank \<lparr>tasks = [InFlight, Waiting], sem = 799, stats = init_stats\<rparr> = Suc (pv_rank (pv_init [''1.2.3.4:8080'', ''5.6.7.8:3128''] 800 init_stats)) \<and>
   length (tasks \<lparr>tasks = [InFlight, Waiting], sem = 799, stats = init_stats\<rparr>) = length (tasks (pv_init [''1.2.3.4:8080'', ''5.6.7.8:3128''] 800 init_stats)) \<and>
   pv_rank \<lparr>tasks = [InFlight, Waiting], sem = 799, stats = init_stats\<rparr> \<le> 3 * length (tasks \<lparr>tasks = [InFlight, Waiting], sem = 799, stats = init_stats\<rparr>)"
  using sample_run_step dispatch_terminates [OF sample_run_step] by simp

text \<open>
  C6. With \<open>max_concurrent = 0\<close> the semaphore never admits a task: no reachable state
  of a run over a non-empty proxy list is finished, so \<open>process_views\<close> never returns.
  The spec does not say what a concurrency limit of 0 does.
\<close>

theorem dispatch_zero_limit_never_done:
  "pxs \<noteq> [] \<Longrightarrow> pv_reach pxs 0 s0 s \<Longrightarrow> \<not> pv_done s"
  by (drule pv_init_only) (auto simp: pv_done_def pv_init_def list_all_iff)

theorem dispatch_zero_limit_never_done_witness:
  "[''1.2.3.4:8080'', ''5.6.7.8:3128''] \<noteq> [] \<and> pv_reach [''1.2.3.4:8080'', ''5.6.7.8:3128''] 0 init_stats (pv_init [''1.2.3.4:8080'', ''5.6.7.8:3128''] 0 init_stats) \<and>
   \<not> pv_done (pv_init [''1.2.3.4:8080'', ''5.6.7.8:3128''] 0 init_stats)"
  using dispatch_zero_limit_never_done [OF _ pv_reach.start, of "[''1.2.3.4:8080'', ''5.6.7.8:3128'']" init_stats]
    pv_reach.start [of "[''1.2.3.4:8080'', ''5.6.7.8:3128'']" 0 init_stats] by simp

text \<open>
  C12. \<open>add_view\<close> resolves an attempt to exactly one outcome: exactly one of the two
  counters grows by one; the attempt succeeds, and its proxy becomes active, exactly
  when the response status is 200 (a 204 or any other 2xx counts as an error).
\<close>

theorem add_view_one_outcome:
  assumes "add_view px r s = (s', ok)"
  shows "success_count s' + error_count s' = Suc (success_count s + error_count s) \<and>
         (ok \<longleftrightarrow> r = Status 200) \<and>
         (if ok then success_count s' = Suc (success_count s) \<and>
                     active_proxies s' = insert px (active_proxies s)
          else error_count s' = Suc (error_count s) \<and> active_proxies s' = active_proxies s)"
  using assms by (auto simp: add_view_def split: outcome.splits if_splits)

theorem add_view_one_outcome_witness:
  "add_view ''1.2.3.4:8080'' (Status 204) init_stats =
     (\<lparr>success_count = 0, error_count = 1, active_proxies = {}\<rparr>, False) \<and>
   0 + 1 = Suc (success_count init_stats + error_count init_stats) \<and> \<not> (Status 204 = Status 200)"
proof -
  have a: "add_view ''1.2.3.4:8080'' (Status 204) init_stats =
      (\<lparr>success_count = 0, error_count = 1, active_proxies = {}\<rparr>, False)"
    by (simp add: add_view_def init_stats_def)
  from add_view_one_outcome [OF a] have "0 + 1 = Suc (success_count init_stats + error_count init_stats)"
    by simp
  with a show ?thesis by simp
qed

end
