(* ===== verification/UrlCheck.thy ===== *)
theory UrlCheck
  imports ReFindall
begin

text \<open>
  \<open>validate_telegram_url\<close> (src/main.py lines 26-29): \<open>re.match\<close> of the pattern
  \<open>^https?:\/\/t\.me\/[a-zA-Z0-9_]+\/\d+$\<close>, written with the matcher of theory Regex:
  \<open>lit\<close> is a run of literal characters, \<open>s?\<close> a class repetition of at most one.
  The lemmas evaluate the matcher piece by piece (a literal, the optional \<open>s\<close>, the
  greedy runs, whose continuations reject a further class character) and end in a
  characterisation of the accepted strings by their shape.
\<close>

definition lit :: "string \<Rightarrow> rx" where
  "lit w = foldr (\<lambda>c r. Seq (Chr c) r) w Eps"

definition tg_pattern :: rx where
  "tg_pattern =
     Seq Bos (Seq (lit ''http'') (Seq (Cls (\<lambda>x. x = CHR ''s'') 0 (Some 1))
       (Seq (lit ''://t.me/'') (Seq (Cls is_ascii_word 1 None)
         (Seq (Chr CHR ''/'') (Seq (Cls is_digit 1 None) Eos))))))"

definition validate_telegram_url :: "string \<Rightarrow> bool" where
  "validate_telegram_url url \<longleftrightarrow> re_match tg_pattern url \<noteq> None"

text \<open>The part after \<open>t.me/\<close>: a name, a slash, a number, the end.\<close>

definition tg_tail :: rx where
  "tg_tail = Seq (Cls is_ascii_word 1 None) (Seq (Chr CHR ''/'') (Seq (Cls is_digit 1 None) Eos))"

lemma lit_simps: "lit [] = Eps" "lit (c # w) = Seq (Chr c) (lit w)"
  by (simp_all add: lit_def)

lemma mt_lit:
  "mt (lit w) p s k =
     (if take (length w) s = w then k (if w = [] then p else Some (last w)) (drop (length w) s) else None)"
proof (induction w arbitrary: p s)
  case Nil
  then show ?case by (simp add: lit_simps)
next
  case (Cons c w)
  then show ?case by (cases s) (auto simp: lit_simps)
qed

lemma mt_class_run_unbounded:
  assumes H: "\<And>c' x xs. P c' \<Longrightarrow> P x \<Longrightarrow> k (Some c') (x # xs) = None"
  shows "mt (Cls P 1 None) p s k =
    (if takeWhile P s \<noteq> [] then k (Some (last (takeWhile P s))) (dropWhile P s) else None)"
proof (cases s)
  case Nil
  then show ?thesis by simp
next
  case (Cons x xs)
  show ?thesis
  proof (cases "P x")
    case True
    have "rep_max P None (Some x) xs k =
      (if rep_within None (length (takeWhile P xs))
       then k (Some (last (x # takeWhile P xs))) (dropWhile P xs) else None)"
      using rep_max_run [where P = P and c = x and k = k and hi = None and s = xs, OF True H] .
    with Cons True show ?thesis by simp
  next
    case False
    with Cons show ?thesis by simp
  qed
qed

lemma mt_opt_char:
  assumes "\<And>q xs. k q (c # xs) = None"
  shows "mt (Cls (\<lambda>x. x = c) 0 (Some 1)) p s k =
    (case s of [] \<Rightarrow> k p [] | x # xs \<Rightarrow> if x = c then k (Some c) xs else k p s)"
proof (cases s)
  case (Cons x xs)
  have "rep_max (\<lambda>x. x = c) (Some 0) (Some c) xs k = k (Some c) xs" by (cases xs) simp_all
  with Cons assms show ?thesis by (simp split: option.splits)
qed simp

lemma span_eq:
  "\<forall>c\<in>set a. P c \<Longrightarrow> b = [] \<or> \<not> P (hd b) \<Longrightarrow> takeWhile P (a @ b) = a \<and> dropWhile P (a @ b) = b"
proof (induction a)
  case Nil
  then show ?case by (cases b) auto
qed auto

lemma not_ascii_word_punct [simp]:
  "\<not> is_ascii_word CHR ''/''" "\<not> is_ascii_word (CHR 0x0A)"
  by (simp_all add: is_ascii_word_def)

lemma span_iff:
  "R (takeWhile P s) (dropWhile P s) \<longleftrightarrow>
   (\<exists>a b. s = a @ b \<and> (\<forall>c\<in>set a. P c) \<and> (b = [] \<or> \<not> P (hd b)) \<and> R a b)"
proof
  assume "R (takeWhile P s) (dropWhile P s)"
  moreover have "dropWhile P s = [] \<or> \<not> P (hd (dropWhile P s))"
    using hd_dropWhile [of P s] by blast
  ultimately show "\<exists>a b. s = a @ b \<and> (\<forall>c\<in>set a. P c) \<and> (b = [] \<or> \<not> P (hd b)) \<and> R a b"
    by (metis set_takeWhileD takeWhile_dropWhile_id)
next
  assume "\<exists>a b. s = a @ b \<and> (\<forall>c\<in>set a. P c) \<and> (b = [] \<or> \<not> P (hd b)) \<and> R a b"
  then show "R (takeWhile P s) (dropWhile P s)" using span_eq by metis
qed

lemma mt_Seq_Chr:
  "mt (Seq (Chr c) r) p s k = (case s of [] \<Rightarrow> None | x # xs \<Rightarrow> if x = c then mt r (Some x) xs k else None)"
  by (simp split: list.split)

lemma mt_digits_end:
  "mt (Seq (Cls is_digit 1 None) Eos) p t k =
    (if takeWhile is_digit t \<noteq> [] \<and> (dropWhile is_digit t = [] \<or> dropWhile is_digit t = [CHR 0x0A])
     then k (Some (last (takeWhile is_digit t))) (dropWhile is_digit t) else None)"
proof -
  have "mt (Cls is_digit 1 None) p t (\<lambda>p' s'. mt Eos p' s' k) =
    (if takeWhile is_digit t \<noteq> [] then mt Eos (Some (last (takeWhile is_digit t))) (dropWhile is_digit t) k else None)"
    by (rule mt_class_run_unbounded) auto
  then show ?thesis by simp
qed

lemma mt_tg_tail:
  "mt tg_tail p s k =
    (let n = takeWhile is_ascii_word s; r = dropWhile is_ascii_word s in
     if n \<noteq> [] \<and> r \<noteq> [] \<and> hd r = CHR ''/'' then mt (Seq (Cls is_digit 1 None) Eos) (Some CHR ''/'') (tl r) k
     else None)"
proof -
  have "mt (Cls is_ascii_word 1 None) p s (\<lambda>p' s'. mt (Seq (Chr CHR ''/'') (Seq (Cls is_digit 1 None) Eos)) p' s' k) =
    (if takeWhile is_ascii_word s \<noteq> [] then mt (Seq (Chr CHR ''/'') (Seq (Cls is_digit 1 None) Eos))
        (Some (last (takeWhile is_ascii_word s))) (dropWhile is_ascii_word s) k else None)"
    by (rule mt_class_run_unbounded) auto
  moreover have "mt tg_tail p s k =
    mt (Cls is_ascii_word 1 None) p s (\<lambda>p' s'. mt (Seq (Chr CHR ''/'') (Seq (Cls is_digit 1 None) Eos)) p' s' k)"
    by (simp only: tg_tail_def mt.simps(4))
  ultimately show ?thesis
    by (cases "dropWhile is_ascii_word s") (simp_all add: Let_def mt_Seq_Chr del: mt.simps dropWhile_eq_Nil_conv)
qed

lemma digits_end_iff:
  "(takeWhile is_digit t \<noteq> [] \<and> (dropWhile is_digit t = [] \<or> dropWhile is_digit t = [CHR 0x0A])) \<longleftrightarrow>
   (\<exists>num e. t = num @ e \<and> num \<noteq> [] \<and> (\<forall>c\<in>set num. is_digit c) \<and> (e = [] \<or> e = [CHR 0x0A]))"
  using span_iff [where P = is_digit and s = t and R = "\<lambda>a b. a \<noteq> [] \<and> (b = [] \<or> b = [CHR 0x0A])"]
  by auto

lemma tg_tail_iff:
  assumes "\<And>q t. k q t \<noteq> None"
  shows "mt tg_tail p s k \<noteq> None \<longleftrightarrow>
    (\<exists>name num e. s = name @ CHR ''/'' # num @ e \<and> name \<noteq> [] \<and> (\<forall>c\<in>set name. is_ascii_word c) \<and>
       num \<noteq> [] \<and> (\<forall>c\<in>set num. is_digit c) \<and> (e = [] \<or> e = [CHR 0x0A]))"
proof -
  let ?D = "\<lambda>t. \<exists>num e. t = num @ e \<and> num \<noteq> [] \<and> (\<forall>c\<in>set num. is_digit c) \<and> (e = [] \<or> e = [CHR 0x0A])"
  have "mt tg_tail p s k \<noteq> None \<longleftrightarrow>
    (let n = takeWhile is_ascii_word s; r = dropWhile is_ascii_word s in
      n \<noteq> [] \<and> r \<noteq> [] \<and> hd r = CHR ''/'' \<and> ?D (tl r))"
    unfolding mt_tg_tail mt_digits_end Let_def digits_end_iff [symmetric]
    using assms by (simp del: dropWhile_eq_Nil_conv takeWhile_eq_Nil_iff)
  also have "\<dots> \<longleftrightarrow> (\<exists>a b. s = a @ b \<and> (\<forall>c\<in>set a. is_ascii_word c) \<and> (b = [] \<or> \<not> is_ascii_word (hd b)) \<and>
      a \<noteq> [] \<and> b \<noteq> [] \<and> hd b = CHR ''/'' \<and> ?D (tl b))"
    unfolding Let_def by (rule span_iff)
  also have "\<dots> \<longleftrightarrow> (\<exists>name num e. s = name @ CHR ''/'' # num @ e \<and> name \<noteq> [] \<and> (\<forall>c\<in>set name. is_ascii_word c) \<and>
       num \<noteq> [] \<and> (\<forall>c\<in>set num. is_digit c) \<and> (e = [] \<or> e = [CHR 0x0A]))"
  proof
    assume "\<exists>a b. s = a @ b \<and> (\<forall>c\<in>set a. is_ascii_word c) \<and> (b = [] \<or> \<not> is_ascii_word (hd b)) \<and>
      a \<noteq> [] \<and> b \<noteq> [] \<and> hd b = CHR ''/'' \<and> ?D (tl b)"
    then obtain a b num e where "s = a @ b" "\<forall>c\<in>set a. is_ascii_word c" "a \<noteq> []" "b = CHR ''/'' # tl b"
        "tl b = num @ e" "num \<noteq> []" "\<forall>c\<in>set num. is_digit c" "e = [] \<or> e = [CHR 0x0A]"
      by (metis list.collapse)
    then show "\<exists>name num e. s = name @ CHR ''/'' # num @ e \<and> name \<noteq> [] \<and> (\<forall>c\<in>set name. is_ascii_word c) \<and>
       num \<noteq> [] \<and> (\<forall>c\<in>set num. is_digit c) \<and> (e = [] \<or> e = [CHR 0x0A])"
      by (metis append_Cons)
  next
    assume "\<exists>name num e. s = name @ CHR ''/'' # num @ e \<and> name \<noteq> [] \<and> (\<forall>c\<in>set name. is_ascii_word c) \<and>
       num \<noteq> [] \<and> (\<forall>c\<in>set num. is_digit c) \<and> (e = [] \<or> e = [CHR 0x0A])"
    then obtain name num e where "s = name @ CHR ''/'' # num @ e" "name \<noteq> []" "\<forall>c\<in>set name. is_ascii_word c"
        "?D (num @ e)"
      by blast
    then show "\<exists>a b. s = a @ b \<and> (\<forall>c\<in>set a. is_ascii_word c) \<and> (b = [] \<or> \<not> is_ascii_word (hd b)) \<and>
      a \<noteq> [] \<and> b \<noteq> [] \<and> hd b = CHR ''/'' \<and> ?D (tl b)"
      by (intro exI [of _ name] exI [of _ "CHR ''/'' # num @ e"]) simp
  qed
  finally show ?thesis .
qed

lemma lit_iff:
  "(take (length w) t = w \<and> Q (drop (length w) t)) \<longleftrightarrow> (\<exists>r. t = w @ r \<and> Q r)"
  by (metis append_eq_conv_conj)

lemma lit_cont_iff:
  "w \<noteq> [] \<Longrightarrow> mt (lit w) q t k \<noteq> None \<longleftrightarrow> (\<exists>r. t = w @ r \<and> k (Some (last w)) r \<noteq> None)"
proof -
  assume "w \<noteq> []"
  then have "mt (lit w) q t k \<noteq> None \<longleftrightarrow> take (length w) t = w \<and> k (Some (last w)) (drop (length w) t) \<noteq> None"
    by (simp add: mt_lit)
  then show ?thesis
    using lit_iff [where w = w and t = t and Q = "\<lambda>r. k (Some (last w)) r \<noteq> None"] by (rule trans)
qed

lemma opt_prefix_iff:
  "(\<exists>sec t. r = sec @ t \<and> (sec = [] \<or> sec = [c]) \<and> P t) \<longleftrightarrow> P r \<or> (r \<noteq> [] \<and> hd r = c \<and> P (tl r))"
proof (cases r)
  case (Cons x xs)
  have "P (x # xs) \<Longrightarrow> \<exists>sec t. x # xs = sec @ t \<and> (sec = [] \<or> sec = [c]) \<and> P t" by blast
  moreover have "x = c \<Longrightarrow> P xs \<Longrightarrow> \<exists>sec t. x # xs = sec @ t \<and> (sec = [] \<or> sec = [c]) \<and> P t"
    by (intro exI [of _ "[c]"] exI [of _ xs]) simp
  ultimately show ?thesis using Cons by auto
qed simp

lemma opt_s_iff:
  assumes "\<And>q t. k q t \<noteq> None"
  shows "mt (Cls (\<lambda>x. x = CHR ''s'') 0 (Some 1)) q r (\<lambda>q' t. mt (lit ''://t.me/'') q' t (\<lambda>q' t'. mt tg_tail q' t' k)) \<noteq> None
    \<longleftrightarrow> (\<exists>sec t. r = sec @ t \<and> (sec = [] \<or> sec = ''s'') \<and>
         (\<exists>r'. t = ''://t.me/'' @ r' \<and> mt tg_tail (Some CHR ''/'') r' k \<noteq> None))"
proof -
  have L: "\<And>q t. mt (lit ''://t.me/'') q t (\<lambda>q' t'. mt tg_tail q' t' k) \<noteq> None \<longleftrightarrow>
      (\<exists>r'. t = ''://t.me/'' @ r' \<and> mt tg_tail (Some CHR ''/'') r' k \<noteq> None)"
    using lit_cont_iff [where w = "''://t.me/''" and k = "\<lambda>q' t'. mt tg_tail q' t' k"] by simp
  have rej: "\<And>q xs. mt (lit ''://t.me/'') q (CHR ''s'' # xs) (\<lambda>q' t'. mt tg_tail q' t' k) = None"
    by (simp add: mt_lit del: mt.simps)
  note opt = mt_opt_char [where c = "CHR ''s''" and k = "\<lambda>q' t. mt (lit ''://t.me/'') q' t (\<lambda>q' t'. mt tg_tail q' t' k)", OF rej]
  show ?thesis
  proof (cases r)
    case Nil
    then show ?thesis by (simp only: opt list.case L) simp
  next
    case (Cons x xs)
    show ?thesis
    proof (cases "x = CHR ''s''")
      case True
      then have "mt (Cls (\<lambda>x. x = CHR ''s'') 0 (Some 1)) q r (\<lambda>q' t. mt (lit ''://t.me/'') q' t (\<lambda>q' t'. mt tg_tail q' t' k)) \<noteq> None
        \<longleftrightarrow> (\<exists>r'. xs = ''://t.me/'' @ r' \<and> mt tg_tail (Some CHR ''/'') r' k \<noteq> None)"
        by (simp only: opt Cons list.case simp_thms if_True L)
      with Cons True show ?thesis by (simp only: opt_prefix_iff) (simp del: mt.simps)
    next
      case False
      then have "mt (Cls (\<lambda>x. x = CHR ''s'') 0 (Some 1)) q r (\<lambda>q' t. mt (lit ''://t.me/'') q' t (\<lambda>q' t'. mt tg_tail q' t' k)) \<noteq> None
        \<longleftrightarrow> (\<exists>r'. x # xs = ''://t.me/'' @ r' \<and> mt tg_tail (Some CHR ''/'') r' k \<noteq> None)"
        by (simp only: opt Cons list.case if_False L)
      with Cons False show ?thesis by (simp only: opt_prefix_iff) (simp del: mt.simps)
    qed
  qed
qed

lemma tg_pattern_split:
  "tg_pattern = Seq Bos (Seq (lit ''http'') (Seq (Cls (\<lambda>x. x = CHR ''s'') 0 (Some 1)) (Seq (lit ''://t.me/'') tg_tail)))"
  by (simp add: tg_pattern_def tg_tail_def)

lemma tg_pattern_iff:
  assumes "\<And>q t. k q t \<noteq> None"
  shows "mt tg_pattern None u k \<noteq> None \<longleftrightarrow>
    (\<exists>r. u = ''http'' @ r \<and> (\<exists>sec t. r = sec @ t \<and> (sec = [] \<or> sec = ''s'') \<and>
         (\<exists>r'. t = ''://t.me/'' @ r' \<and> mt tg_tail (Some CHR ''/'') r' k \<noteq> None)))"
proof -
  have "mt tg_pattern None u k = mt (lit ''http'') None u (\<lambda>q r. mt (Cls (\<lambda>x. x = CHR ''s'') 0 (Some 1)) q r
      (\<lambda>q' t. mt (lit ''://t.me/'') q' t (\<lambda>q' t'. mt tg_tail q' t' k)))"
    by (simp only: tg_pattern_split mt.simps(4) mt.simps(6) if_True simp_thms)
  then show ?thesis
    using lit_cont_iff [where w = "''http''" and q = None and t = u and k = "\<lambda>q r. mt (Cls (\<lambda>x. x = CHR ''s'') 0 (Some 1)) q r
      (\<lambda>q' t. mt (lit ''://t.me/'') q' t (\<lambda>q' t'. mt tg_tail q' t' k))"]
    by (simp only: opt_s_iff [OF assms] list.simps last.simps if_False list.distinct not_False_eq_True simp_thms)
qed

lemma validate_telegram_url_shape:
  "validate_telegram_url url \<longleftrightarrow>
    (\<exists>sec name num e. url = ''http'' @ sec @ ''://t.me/'' @ name @ CHR ''/'' # num @ e \<and>
       (sec = [] \<or> sec = ''s'') \<and> name \<noteq> [] \<and> (\<forall>c\<in>set name. is_ascii_word c) \<and>
       num \<noteq> [] \<and> (\<forall>c\<in>set num. is_digit c) \<and> (e = [] \<or> e = [CHR 0x0A]))"
proof -
  let ?k = "\<lambda>p' s'. Some (take (length url - length s') url)"
  have "validate_telegram_url url \<longleftrightarrow>
    (\<exists>r. url = ''http'' @ r \<and> (\<exists>sec t. r = sec @ t \<and> (sec = [] \<or> sec = ''s'') \<and>
         (\<exists>r'. t = ''://t.me/'' @ r' \<and>
            (\<exists>name num e. r' = name @ CHR ''/'' # num @ e \<and> name \<noteq> [] \<and> (\<forall>c\<in>set name. is_ascii_word c) \<and>
              num \<noteq> [] \<and> (\<forall>c\<in>set num. is_digit c) \<and> (e = [] \<or> e = [CHR 0x0A])))))"
    unfolding validate_telegram_url_def re_match_def tg_pattern_iff [of ?k, OF option.distinct(2)]
      tg_tail_iff [of ?k, OF option.distinct(2)] ..
  also have "\<dots> \<longleftrightarrow> (\<exists>sec name num e. url = ''http'' @ sec @ ''://t.me/'' @ name @ CHR ''/'' # num @ e \<and>
       (sec = [] \<or> sec = ''s'') \<and> name \<noteq> [] \<and> (\<forall>c\<in>set name. is_ascii_word c) \<and>
       num \<noteq> [] \<and> (\<forall>c\<in>set num. is_digit c) \<and> (e = [] \<or> e = [CHR 0x0A]))"
    by blast
  finally show ?thesis .
qed

lemma validate_telegram_url_http: "validate_telegram_url url \<Longrightarrow> url = ''http'' @ drop 4 url"
  by (auto simp: validate_telegram_url_shape)

section \<open>The accepted URLs\<close>

text \<open>
  C18. \<open>validate_telegram_url\<close> accepts exactly \<open>http\<close>, an optional \<open>s\<close>,
  \<open>://t.me/\<close>, a non-empty name of ASCII letters, digits and underscores, a slash and a
  non-empty run of digits, followed by nothing or by a single newline (\<open>$\<close> also matches
  before a final newline).
\<close>

theorem validate_telegram_url_iff:
  "validate_telegram_url url \<longleftrightarrow>
    (\<exists>sec name num e. url = ''http'' @ sec @ ''://t.me/'' @ name @ CHR ''/'' # num @ e \<and>
       (sec = [] \<or> sec = ''s'') \<and> name \<noteq> [] \<and> (\<forall>c\<in>set name. is_ascii_word c) \<and>
       num \<noteq> [] \<and> (\<forall>c\<in>set num. is_digit c) \<and> (e = [] \<or> e = [CHR 0x0A]))"
  by (rule validate_telegram_url_shape)

theorem validate_telegram_url_iff_witness:
  "validate_telegram_url (''https://t.me/chan_1/42'' @ [CHR 0x0A])"
proof -
  have "\<exists>sec name num e. ''https://t.me/chan_1/42'' @ [CHR 0x0A] = ''http'' @ sec @ ''://t.me/'' @ name @ CHR ''/'' # num @ e \<and>
       (sec = [] \<or> sec = ''s'') \<and> name \<noteq> [] \<and> (\<forall>c\<in>set name. is_ascii_word c) \<and>
       num \<noteq> [] \<and> (\<forall>c\<in>set num. is_digit c) \<and> (e = [] \<or> e = [CHR 0x0A])"
    by (intro exI [of _ "''s''"] exI [of _ "''chan_1''"] exI [of _ "''42''"] exI [of _ "[CHR 0x0A]"])
      (simp add: is_ascii_word_def is_digit_def)
  then show ?thesis using validate_telegram_url_iff by blast
qed

end
