(* ===== verification/Bot.thy ===== *)
theory Bot
  imports ProxyScraper ViewAdder UrlCheck
begin

text \<open>
  The bot front end (src/main.py). One module-level \<open>ProxyScraper\<close> and one
  module-level \<open>ViewAdder\<close> serve every chat; \<open>active_tasks\<close> maps a chat id to the
  start time of its run. Two views of \<open>process_views_task\<close>:
  \<^item> \<open>process_views_task\<close> and \<open>message_handler\<close>: the handler run to its end with
    nothing in between, as functions of the bot state (scrape, then dispatch, then the
    \<open>finally\<close> clean-up); the dispatch result is the one-request-at-a-time loop, which
    theory ViewAdder proves equal to any interleaving of the dispatch tasks;
  \<^item> \<open>bot_step\<close>: handler invocations interleaved at their awaits, as the bot library
    runs the handlers of different updates as concurrent asyncio tasks. A run is a
    phase (\<open>Scraping\<close>, \<open>Dispatching\<close> with the requests still to resolve, \<open>Reporting\<close>
    with the statistics it read, \<open>Done\<close>) and the outcomes it has applied so far.
  Telegram messages are replies (\<open>reply\<close>). Also here: \<open>start_handler\<close> and the
  routing of a text to a handler (\<open>handle_message\<close>), and the status text
  (\<open>update_status_message\<close>) the status loop sends while a run is dispatching; its
  timer and the message edits are not modelled.
\<close>

type_synonym chat = int

record bot =
  active_tasks :: "chat \<rightharpoonup> nat"
  view_adder :: stats
  proxy_scraper :: scraper

datatype reply =
    BusyMsg | InvalidUrlMsg | NoProxiesMsg | FinalMsg nat nat nat | ErrorMsg
  | WelcomeMsg | StatusMsg nat nat nat nat | InitMsg | StartingMsg nat

text \<open>The \<open>finally\<close> block of \<open>process_views_task\<close> (lines 122-126).\<close>

definition cleanup :: "chat \<Rightarrow> bot \<Rightarrow> bot" where
  "cleanup c b = b\<lparr>active_tasks := (active_tasks b)(c := None), view_adder := reset_stats (view_adder b)\<rparr>"

text \<open>
  \<open>process_views_task\<close> (lines 54-126) run to its end. \<open>view_net px\<close> is the outcome of
  the view request through \<open>px\<close>; \<open>t\<close> is the start time.
\<close>

definition process_views_task :: "(url \<Rightarrow> http_result) \<Rightarrow> (proxy \<Rightarrow> http_result) \<Rightarrow> (proxy set \<Rightarrow> proxy list)
    \<Rightarrow> (proxy \<Rightarrow> outcome) \<Rightarrow> chat \<Rightarrow> nat \<Rightarrow> bot \<Rightarrow> reply \<times> bot" where
  "process_views_task net probe sched view_net c t b =
     (case scrape net probe True sched (proxy_scraper b) of
        (ps', Inl e) \<Rightarrow> (ErrorMsg, cleanup c (b\<lparr>proxy_scraper := ps'\<rparr>))
      | (ps', Inr (ws, ev)) \<Rightarrow>
          (let b1 = b\<lparr>proxy_scraper := ps'\<rparr> in
           if ws = [] then (NoProxiesMsg, cleanup c b1)
           else
             (let b2 = b1\<lparr>active_tasks := (active_tasks b1)(c \<mapsto> t)\<rparr>;
                  s = seq_views ws (map view_net ws) (view_adder b2);
                  (v, e, a) = get_stats s
              in (FinalMsg v a e, cleanup c (b2\<lparr>view_adder := s\<rparr>)))))"

text \<open>\<open>message_handler\<close> (lines 147-176): the active-task guard, then the URL check.\<close>

definition message_handler :: "(url \<Rightarrow> http_result) \<Rightarrow> (proxy \<Rightarrow> http_result)
    \<Rightarrow> (proxy set \<Rightarrow> proxy list) \<Rightarrow> (proxy \<Rightarrow> outcome) \<Rightarrow> chat \<Rightarrow> nat \<Rightarrow> url \<Rightarrow> bot \<Rightarrow> reply \<times> bot" where
  "message_handler net probe sched view_net c t u b =
     (if c \<in> dom (active_tasks b) then (BusyMsg, b)
      else if \<not> validate_telegram_url u then (InvalidUrlMsg, b)
      else process_views_task net probe sched view_net c t b)"

text \<open>\<open>start_handler\<close> (lines 139-145): the welcome text, nothing else.\<close>

definition start_handler :: "bot \<Rightarrow> reply \<times> bot" where
  "start_handler b = (WelcomeMsg, b)"

text \<open>
  Routing of a text message (the decorators at lines 139 and 147): the bot library
  tries the handlers in the order they were registered; \<open>commands=['start']\<close> matches
  when the text starts with a slash and its first word, up to an \<open>@\<close>, is
  \<open>/start\<close>; the catch-all \<open>message_handler\<close> takes every other text. The first word
  is up to the first whitespace character of \<open>str.split()\<close> (in Latin-1: tab to
  carriage return, the separators 0x1C-0x1F, space, NEL and no-break space).
\<close>

definition py_space :: "char \<Rightarrow> bool" where
  "py_space c \<longleftrightarrow> (let n = of_char c :: nat in (9 \<le> n \<and> n \<le> 13) \<or> (28 \<le> n \<and> n \<le> 32) \<or> n = 133 \<or> n = 160)"

definition command_of :: "string \<Rightarrow> string option" where
  "command_of t =
     (if t \<noteq> [] \<and> hd t = CHR ''/''
      then Some (drop 1 (takeWhile (\<lambda>c. c \<noteq> CHR ''@'') (takeWhile (\<lambda>c. \<not> py_space c) t)))
      else None)"

definition handle_message :: "(url \<Rightarrow> http_result) \<Rightarrow> (proxy \<Rightarrow> http_result)
    \<Rightarrow> (proxy set \<Rightarrow> proxy list) \<Rightarrow> (proxy \<Rightarrow> outcome) \<Rightarrow> chat \<Rightarrow> nat \<Rightarrow> string \<Rightarrow> bot \<Rightarrow> reply \<times> bot" where
  "handle_message net probe sched view_net c t txt b =
     (if command_of txt = Some ''start'' then start_handler b
      else message_handler net probe sched view_net c t txt b)"

text \<open>
  \<open>update_status_message\<close> (lines 31-52): the status text shows the shared counters
  and \<open>THREAD_COUNT\<close> (the uptime is not modelled). \<open>status_update_loop\<close> (lines
  128-137) sends it every three seconds from the registration of a run until its
  dispatch returns, that is while the run is \<open>Dispatching\<close>.
\<close>

definition update_status_message :: "stats \<Rightarrow> reply" where
  "update_status_message s = (case get_stats s of (v, e, a) \<Rightarrow> StatusMsg v a e THREAD_COUNT)"

section \<open>Handlers interleaved at their awaits\<close>

datatype phase =
    Scraping
  | Dispatching "(proxy \<times> outcome) list"
  | Reporting "(nat \<times> nat \<times> nat) option"
  | Done "(nat \<times> nat \<times> nat) option"

record run =
  run_chat :: chat
  run_phase :: phase
  run_own :: "(proxy \<times> outcome) list"

record botc =
  tasks_of :: "chat \<rightharpoonup> nat"
  engine :: stats
  runs :: "run list"

definition botc_init :: botc where
  "botc_init = \<lparr>tasks_of = Map.empty, engine = init_stats, runs = []\<rparr>"

text \<open>
  The steps, each a stretch of code between two awaits:
  \<^item> \<open>start\<close>: the guard and the URL check \<open>valid\<close> pass and the run starts (up to
    the first await, \<open>bot.send_message\<close>); a refused message changes nothing. In the
    program \<open>valid\<close> is \<open>validate_telegram_url\<close>; the lemmas hold for every check;
  \<^item> \<open>found\<close>: the scrape returned proxies (with the outcomes their requests will have):
    the run registers in \<open>active_tasks\<close> and starts dispatching; \<open>none_found\<close>: it
    returned none;
  \<^item> \<open>dispatch\<close>: one request resolves and \<open>add_view\<close> updates the shared counters;
  \<^item> \<open>report\<close>: \<open>process_views\<close> returned and the run reads \<open>get_stats\<close>;
  \<^item> \<open>fail\<close>: an exception (a failed Telegram call) leaves the run;
  \<^item> \<open>finish\<close>: the \<open>finally\<close> block removes the chat from \<open>active_tasks\<close> and resets
    the counters.
\<close>

inductive bot_step :: "(url \<Rightarrow> bool) \<Rightarrow> botc \<Rightarrow> botc \<Rightarrow> bool" for valid where
  start: "c \<notin> dom (tasks_of b) \<Longrightarrow> valid u \<Longrightarrow>
    bot_step valid b (b\<lparr>runs := runs b @ [\<lparr>run_chat = c, run_phase = Scraping, run_own = []\<rparr>]\<rparr>)"
| none_found: "i < length (runs b) \<Longrightarrow> run_phase (runs b ! i) = Scraping \<Longrightarrow>
    bot_step valid b (b\<lparr>runs := (runs b)[i := (runs b ! i)\<lparr>run_phase := Reporting None\<rparr>]\<rparr>)"
| found: "i < length (runs b) \<Longrightarrow> run_phase (runs b ! i) = Scraping \<Longrightarrow> work \<noteq> [] \<Longrightarrow>
    bot_step valid b (b\<lparr>tasks_of := (tasks_of b)(run_chat (runs b ! i) \<mapsto> t),
                        runs := (runs b)[i := (runs b ! i)\<lparr>run_phase := Dispatching work\<rparr>]\<rparr>)"
| dispatch: "i < length (runs b) \<Longrightarrow> run_phase (runs b ! i) = Dispatching ((px, r) # rest) \<Longrightarrow>
    bot_step valid b (b\<lparr>engine := fst (add_view px r (engine b)),
                        runs := (runs b)[i := (runs b ! i)\<lparr>run_phase := Dispatching rest,
                                   run_own := run_own (runs b ! i) @ [(px, r)]\<rparr>]\<rparr>)"
| report: "i < length (runs b) \<Longrightarrow> run_phase (runs b ! i) = Dispatching [] \<Longrightarrow>
    bot_step valid b (b\<lparr>runs := (runs b)[i := (runs b ! i)\<lparr>run_phase := Reporting (Some (get_stats (engine b)))\<rparr>]\<rparr>)"
| fail: "i < length (runs b) \<Longrightarrow> run_phase (runs b ! i) \<in> {Scraping} \<union> range Dispatching \<Longrightarrow>
    bot_step valid b (b\<lparr>runs := (runs b)[i := (runs b ! i)\<lparr>run_phase := Reporting None\<rparr>]\<rparr>)"
| finish: "i < length (runs b) \<Longrightarrow> run_phase (runs b ! i) = Reporting rep \<Longrightarrow>
    bot_step valid b (b\<lparr>tasks_of := (tasks_of b)(run_chat (runs b ! i) := None),
                        engine := reset_stats (engine b),
                        runs := (runs b)[i := (runs b ! i)\<lparr>run_phase := Done rep\<rparr>]\<rparr>)"

inductive bot_reach :: "(url \<Rightarrow> bool) \<Rightarrow> botc \<Rightarrow> bool" for valid where
  init: "bot_reach valid botc_init"
| step: "bot_reach valid b \<Longrightarrow> bot_step valid b b' \<Longrightarrow> bot_reach valid b'"

fun in_progress :: "phase \<Rightarrow> bool" where
  "in_progress (Done _) = False"
| "in_progress _ = True"

section \<open>Invariants of the interleaved handlers\<close>

text \<open>
  \<open>own_load\<close>: the outcomes a run has applied to the shared counters and not yet
  cleared (a finished run's have been reset or belong to a reset it did not see);
  \<open>busy_chats\<close>: the chats with a run in progress. \<open>bot_inv\<close>: the counters count at
  most the outcomes of the runs in progress, the success set is within the success
  count, and \<open>active_tasks\<close> only names chats with a run in progress. \<open>single_inv\<close>:
  while one run is the only one, the counters are its own outcomes.
\<close>

definition own_load :: "run \<Rightarrow> nat" where
  "own_load r = (if in_progress (run_phase r) then length (run_own r) else 0)"

definition busy_chats :: "run list \<Rightarrow> chat set" where
  "busy_chats rs = run_chat ` {r \<in> set rs. in_progress (run_phase r)}"

definition bot_inv :: "botc \<Rightarrow> bool" where
  "bot_inv b \<longleftrightarrow>
     success_count (engine b) + error_count (engine b) \<le> sum_list (map own_load (runs b)) \<and>
     finite (active_proxies (engine b)) \<and>
     card (active_proxies (engine b)) \<le> success_count (engine b) \<and>
     dom (tasks_of b) \<subseteq> busy_chats (runs b)"

definition own_stats :: "(proxy \<times> outcome) list \<Rightarrow> stats" where
  "own_stats own = seq_views (map fst own) (map snd own) init_stats"

definition single_inv :: "botc \<Rightarrow> bool" where
  "single_inv b \<longleftrightarrow>
     (runs b = [] \<longrightarrow> engine b = init_stats) \<and>
     (\<forall>r. runs b = [r] \<longrightarrow>
        (in_progress (run_phase r) \<longrightarrow> engine b = own_stats (run_own r)) \<and>
        (\<forall>rep. run_phase r = Reporting (Some rep) \<longrightarrow> rep = get_stats (own_stats (run_own r))))"

text \<open>Two sample states reached from \<open>botc_init\<close>.\<close>

definition idle_trace :: botc where
  "idle_trace = \<lparr>tasks_of = Map.empty, engine = reset_stats init_stats,
     runs = [\<lparr>run_chat = 3, run_phase = Done None, run_own = []\<rparr>]\<rparr>"

definition dispatch_trace :: botc where
  "dispatch_trace = \<lparr>tasks_of = [3 \<mapsto> 0], engine = fst (add_view ''p'' (Status 200) init_stats),
     runs = [\<lparr>run_chat = 3, run_phase = Dispatching [], run_own = [(''p'', Status 200)]\<rparr>]\<rparr>"

definition single_trace :: botc where
  "single_trace = \<lparr>tasks_of = [3 \<mapsto> 0], engine = fst (add_view ''p'' (Status 200) init_stats),
     runs = [\<lparr>run_chat = 3, run_phase = Reporting (Some (1, 0, 1)), run_own = [(''p'', Status 200)]\<rparr>]\<rparr>"

section \<open>Lemmas\<close>

lemma bot_reach_step2:
  "bot_reach valid b \<Longrightarrow> bot_step valid b b1 \<Longrightarrow> bot_step valid b1 b2 \<Longrightarrow> bot_reach valid b2"
  by (blast intro: bot_reach.step)

lemma busy_chats_nth:
  "j < length xs \<Longrightarrow> in_progress (run_phase (xs ! j)) \<Longrightarrow> run_chat (xs ! j) \<in> busy_chats xs"
  unfolding busy_chats_def by (auto intro: nth_mem)

lemma busy_chats_obtain:
  assumes "c \<in> busy_chats xs"
  obtains j where "j < length xs" "in_progress (run_phase (xs ! j))" "c = run_chat (xs ! j)"
  using assms unfolding busy_chats_def by (auto simp: in_set_conv_nth)

lemma busy_chats_update_keep:
  assumes i: "i < length xs" and ip: "in_progress (run_phase x)" and ch: "run_chat x = run_chat (xs ! i)"
  shows "busy_chats xs \<subseteq> busy_chats (xs[i := x])"
proof
  fix c assume "c \<in> busy_chats xs"
  then obtain j where j: "j < length xs" "in_progress (run_phase (xs ! j))" "c = run_chat (xs ! j)"
    by (rule busy_chats_obtain)
  show "c \<in> busy_chats (xs[i := x])"
  proof (cases "j = i")
    case True
    with i ip ch j busy_chats_nth [of i "xs[i := x]"] show ?thesis by simp
  next
    case False
    with j busy_chats_nth [of j "xs[i := x]"] show ?thesis by simp
  qed
qed

lemma busy_chats_update_any:
  assumes i: "i < length xs"
  shows "busy_chats xs - {run_chat (xs ! i)} \<subseteq> busy_chats (xs[i := x])"
proof
  fix c assume c: "c \<in> busy_chats xs - {run_chat (xs ! i)}"
  then obtain j where j: "j < length xs" "in_progress (run_phase (xs ! j))" "c = run_chat (xs ! j)"
    by (blast elim: busy_chats_obtain)
  with c have "j \<noteq> i" by auto
  with j busy_chats_nth [of j "xs[i := x]"] show "c \<in> busy_chats (xs[i := x])" by simp
qed

lemma busy_chats_update_mem:
  "i < length xs \<Longrightarrow> in_progress (run_phase x) \<Longrightarrow> run_chat x \<in> busy_chats (xs[i := x])"
  unfolding busy_chats_def by (auto intro: set_update_memI)

lemma load_update:
  "i < length xs \<Longrightarrow>
   sum_list (map own_load (xs[i := x])) + own_load (xs ! i) = sum_list (map own_load xs) + own_load x"
  by (rule sum_list_map_update)

lemma bot_inv_init: "bot_inv botc_init"
  by (simp add: bot_inv_def botc_init_def init_stats_def)

lemma bot_step_inv:
  assumes "bot_step valid b b'" "bot_inv b"
  shows "bot_inv b'"
  using assms
proof (induction rule: bot_step.induct)
  case (start c b u)
  then show ?case
    by (auto simp: bot_inv_def own_load_def busy_chats_def)
next
  case (none_found i b)
  let ?x = "(runs b ! i)\<lparr>run_phase := Reporting None\<rparr>"
  from load_update [OF none_found.hyps(1), of ?x] none_found.hyps(2)
    busy_chats_update_keep [OF none_found.hyps(1), of ?x] none_found.prems
  show ?case by (auto simp: bot_inv_def own_load_def)
next
  case (found i b work t)
  let ?x = "(runs b ! i)\<lparr>run_phase := Dispatching work\<rparr>"
  from load_update [OF found.hyps(1), of ?x] found.hyps(2)
    busy_chats_update_keep [OF found.hyps(1), of ?x] busy_chats_update_mem [OF found.hyps(1), of ?x]
    found.prems
  show ?case by (auto simp: bot_inv_def own_load_def)
next
  case (dispatch i b px r rest)
  let ?x = "(runs b ! i)\<lparr>run_phase := Dispatching rest, run_own := run_own (runs b ! i) @ [(px, r)]\<rparr>"
  from load_update [OF dispatch.hyps(1), of ?x] dispatch.hyps(2)
    busy_chats_update_keep [OF dispatch.hyps(1), of ?x] dispatch.prems
  show ?case by (auto simp: bot_inv_def own_load_def stats_simps card_insert_if)
next
  case (report i b)
  let ?x = "(runs b ! i)\<lparr>run_phase := Reporting (Some (get_stats (engine b)))\<rparr>"
  from load_update [OF report.hyps(1), of ?x] report.hyps(2)
    busy_chats_update_keep [OF report.hyps(1), of ?x] report.prems
  show ?case by (auto simp: bot_inv_def own_load_def)
next
  case (fail i b)
  let ?x = "(runs b ! i)\<lparr>run_phase := Reporting None\<rparr>"
  from fail.hyps(2) have ip: "in_progress (run_phase (runs b ! i))" by auto
  from load_update [OF fail.hyps(1), of ?x] ip
    busy_chats_update_keep [OF fail.hyps(1), of ?x] fail.prems
  show ?case by (auto simp: bot_inv_def own_load_def)
next
  case (finish i b rep)
  let ?x = "(runs b ! i)\<lparr>run_phase := Done rep\<rparr>"
  from busy_chats_update_any [OF finish.hyps(1), of ?x] finish.prems
  show ?case by (auto simp: bot_inv_def reset_stats_def)
qed

lemma bot_reach_inv: "bot_reach valid b \<Longrightarrow> bot_inv b"
  by (induction rule: bot_reach.induct) (auto intro: bot_inv_init bot_step_inv)

lemma own_stats_snoc: "own_stats (own @ [(px, r)]) = fst (add_view px r (own_stats own))"
  by (simp add: own_stats_def seq_views_snoc)

lemma single_inv_init: "single_inv botc_init"
  by (simp add: single_inv_def botc_init_def)

lemma update_singleton:
  "i < length xs \<Longrightarrow> (xs[i := x] = [y]) = ((\<exists>r0. xs = [r0]) \<and> i = 0 \<and> y = x)"
  by (cases xs; cases i) auto

lemma bot_step_single_inv:
  assumes "bot_step valid b b'" "single_inv b"
  shows "single_inv b'"
  using assms
proof (induction rule: bot_step.induct)
  case (start c b u)
  then show ?case by (auto simp: single_inv_def own_stats_def)
next
  case (dispatch i b px r rest)
  then show ?case
    by (auto simp: single_inv_def own_stats_snoc update_singleton)
next
  case (finish i b rep)
  then show ?case by (auto simp: single_inv_def update_singleton)
qed (auto simp: single_inv_def update_singleton)

lemma bot_reach_single_inv: "bot_reach valid b \<Longrightarrow> single_inv b"
  by (induction rule: bot_reach.induct) (auto intro: single_inv_init bot_step_single_inv)

lemma reset_seq_views: "reset_stats (seq_views xs rs s) = reset_stats s"
  by (induction xs rs s rule: seq_views.induct) (simp_all add: reset_stats_def stats_simps)

lemma process_views_task_scrape:
  assumes sc: "scrape net probe True sched (proxy_scraper b) = (ps', Inr (ws, ev))"
  shows "process_views_task net probe sched view_net c t b =
    (if ws = [] then NoProxiesMsg
     else (case get_stats (seq_views ws (map view_net ws) (view_adder b)) of (v, e, a) \<Rightarrow> FinalMsg v a e),
     b\<lparr>active_tasks := (active_tasks b)(c := None), view_adder := reset_stats (view_adder b),
       proxy_scraper := ps'\<rparr>)"
proof (cases "ws = []")
  case True
  with sc show ?thesis by (simp add: process_views_task_def cleanup_def)
next
  case False
  with sc show ?thesis
    by (simp add: process_views_task_def cleanup_def Let_def reset_seq_views split: prod.splits)
qed

lemma idle_trace_reach: "bot_reach (\<lambda>_. True) idle_trace"
proof -
  let ?r = "\<lparr>run_chat = 3, run_phase = Scraping, run_own = []\<rparr>"
  let ?b1 = "botc_init\<lparr>runs := runs botc_init @ [?r]\<rparr>"
  let ?b2 = "?b1\<lparr>runs := (runs ?b1)[0 := (runs ?b1 ! 0)\<lparr>run_phase := Reporting None\<rparr>]\<rparr>"
  let ?b3 = "?b2\<lparr>tasks_of := (tasks_of ?b2)(run_chat (runs ?b2 ! 0) := None),
      engine := reset_stats (engine ?b2), runs := (runs ?b2)[0 := (runs ?b2 ! 0)\<lparr>run_phase := Done None\<rparr>]\<rparr>"
  have "bot_step (\<lambda>_. True) botc_init ?b1"
    by (rule bot_step.start [where u = "''u''"]) (simp_all add: botc_init_def)
  moreover have "bot_step (\<lambda>_. True) ?b1 ?b2"
    by (rule bot_step.none_found) (simp_all add: botc_init_def)
  moreover have "bot_step (\<lambda>_. True) ?b2 ?b3"
    by (rule bot_step.finish) (simp_all add: botc_init_def)
  ultimately have "bot_reach (\<lambda>_. True) ?b3" by (meson bot_reach.init bot_reach.step)
  moreover have "?b3 = idle_trace" by (simp add: botc_init_def idle_trace_def)
  ultimately show ?thesis by simp
qed

lemma dispatch_trace_reach: "bot_reach (\<lambda>_. True) dispatch_trace"
proof -
  let ?r = "\<lparr>run_chat = 3, run_phase = Scraping, run_own = []\<rparr>"
  let ?b1 = "botc_init\<lparr>runs := runs botc_init @ [?r]\<rparr>"
  let ?b2 = "?b1\<lparr>tasks_of := (tasks_of ?b1)(run_chat (runs ?b1 ! 0) \<mapsto> 0),
      runs := (runs ?b1)[0 := (runs ?b1 ! 0)\<lparr>run_phase := Dispatching [(''p'', Status 200)]\<rparr>]\<rparr>"
  let ?b3 = "?b2\<lparr>engine := fst (add_view ''p'' (Status 200) (engine ?b2)),
      runs := (runs ?b2)[0 := (runs ?b2 ! 0)\<lparr>run_phase := Dispatching [],
        run_own := run_own (runs ?b2 ! 0) @ [(''p'', Status 200)]\<rparr>]\<rparr>"
  have "bot_step (\<lambda>_. True) botc_init ?b1"
    by (rule bot_step.start [where u = "''u''"]) (simp_all add: botc_init_def)
  moreover have "bot_step (\<lambda>_. True) ?b1 ?b2"
    by (rule bot_step.found) (simp_all add: botc_init_def)
  moreover have "bot_step (\<lambda>_. True) ?b2 ?b3"
    by (rule bot_step.dispatch) (simp_all add: botc_init_def)
  ultimately have "bot_reach (\<lambda>_. True) ?b3" by (meson bot_reach.init bot_reach.step)
  moreover have "?b3 = dispatch_trace" by (simp add: botc_init_def dispatch_trace_def init_stats_def)
  ultimately show ?thesis by simp
qed

lemma single_trace_reach: "bot_reach (\<lambda>_. True) single_trace"
proof -
  let ?b4 = "dispatch_trace\<lparr>runs := (runs dispatch_trace)[0 := (runs dispatch_trace ! 0)\<lparr>run_phase :=
      Reporting (Some (get_stats (engine dispatch_trace)))\<rparr>]\<rparr>"
  have "bot_step (\<lambda>_. True) dispatch_trace ?b4"
    by (rule bot_step.report) (simp_all add: dispatch_trace_def)
  with dispatch_trace_reach have "bot_reach (\<lambda>_. True) ?b4" by (rule bot_reach.step)
  moreover have "?b4 = single_trace"
    by (simp add: dispatch_trace_def single_trace_def add_view_def get_stats_def init_stats_def)
  ultimately show ?thesis by simp
qed

section \<open>Properties of the bot\<close>

text \<open>
  C13. \<open>process_views_task\<close> run to its end: the scraper's pool becomes the old pool
  with everything the sources yielded, the working proxies are those the probe accepts
  in completion order; with none the reply is the ``no working proxies'' message,
  otherwise the final report of the counters after the sequential dispatch; in every
  case the chat leaves \<open>active_tasks\<close> and the counters are reset.
\<close>

theorem process_views_task_result:
  fixes net :: "url \<Rightarrow> http_result" and probe :: "proxy \<Rightarrow> http_result"
    and sched :: "proxy set \<Rightarrow> proxy list"
  assumes fin: "finite (proxies (proxy_scraper b))"
    and sched: "\<And>A. finite A \<Longrightarrow> distinct (sched A) \<and> set (sched A) = A"
  defines "P \<equiv> proxies (proxy_scraper b) \<union> (\<Union>u\<in>set PROXY_SOURCES. fetch_proxy_list net u)"
  defines "ws \<equiv> filter (test_proxy probe) (sched P)"
  shows "process_views_task net probe sched view_net c t b =
    (if ws = [] then NoProxiesMsg
     else (case get_stats (seq_views ws (map view_net ws) (view_adder b)) of (v, e, a) \<Rightarrow> FinalMsg v a e),
     b\<lparr>active_tasks := (active_tasks b)(c := None), view_adder := reset_stats (view_adder b),
       proxy_scraper := (proxy_scraper b)\<lparr>proxies := P\<rparr>\<rparr>)"
proof -
  from scrape_eq [OF fin sched, of net probe True] obtain ev where
    sc: "scrape net probe True sched (proxy_scraper b) = ((proxy_scraper b)\<lparr>proxies := P\<rparr>, Inr (ws, ev))"
    by (auto simp: P_def ws_def)
  from process_views_task_scrape [OF sc] show ?thesis .
qed

theorem process_views_task_result_witness:
  "finite (proxies (proxy_scraper \<lparr>active_tasks = Map.empty, view_adder = init_stats,
      proxy_scraper = \<lparr>proxies = {}\<rparr>\<rparr>)) \<and>
   process_views_task (\<lambda>_. RequestError) (\<lambda>_. Response 200 []) sorted_list_of_set (\<lambda>_. Status 200) 7 0
     \<lparr>active_tasks = Map.empty, view_adder = init_stats, proxy_scraper = \<lparr>proxies = {}\<rparr>\<rparr> =
   (NoProxiesMsg, \<lparr>active_tasks = Map.empty, view_adder = init_stats, proxy_scraper = \<lparr>proxies = {}\<rparr>\<rparr>)"
  using process_views_task_result [of "\<lparr>active_tasks = Map.empty, view_adder = init_stats,
      proxy_scraper = \<lparr>proxies = {}\<rparr>\<rparr>" sorted_list_of_set "\<lambda>_. RequestError"
      "\<lambda>_. Response 200 []" "\<lambda>_. Status 200" 7 0] sched_sorted
  by (simp add: fetch_proxy_list_def reset_stats_def init_stats_def)

text \<open>
  C14. The guard on \<open>active_tasks\<close> does not prevent two runs for the same chat:
  a run registers only after its scrape, so a second message of the same chat,
  handled while the first scrapes, passes the guard too.
\<close>

theorem bot_overlap_same_chat:
  assumes "valid u"
  shows "\<exists>b. bot_reach valid b \<and> length (runs b) = 2 \<and>
             run_chat (runs b ! 0) = c \<and> run_chat (runs b ! 1) = c \<and>
             in_progress (run_phase (runs b ! 0)) \<and> in_progress (run_phase (runs b ! 1))"
proof -
  let ?r = "\<lparr>run_chat = c, run_phase = Scraping, run_own = []\<rparr>"
  let ?b1 = "botc_init\<lparr>runs := runs botc_init @ [?r]\<rparr>"
  let ?b2 = "?b1\<lparr>runs := runs ?b1 @ [?r]\<rparr>"
  have s1: "bot_step valid botc_init ?b1"
    by (rule bot_step.start [where valid = valid and u = u, OF _ assms]) (simp add: botc_init_def)
  have s2: "bot_step valid ?b1 ?b2"
    by (rule bot_step.start [where valid = valid and u = u, OF _ assms]) (simp add: botc_init_def)
  have "bot_reach valid ?b2" by (rule bot_reach_step2 [OF bot_reach.init s1 s2])
  then show ?thesis by (intro exI [of _ ?b2]) (simp add: botc_init_def)
qed

theorem bot_overlap_same_chat_witness:
  "\<exists>b. bot_reach (\<lambda>_. True) b \<and> length (runs b) = 2 \<and>
       run_chat (runs b ! 0) = 5 \<and> run_chat (runs b ! 1) = 5 \<and>
       in_progress (run_phase (runs b ! 0)) \<and> in_progress (run_phase (runs b ! 1))"
  using bot_overlap_same_chat [where valid = "\<lambda>_. True" and u = "''https://t.me/c/1''" and c = 5]
  by simp

text \<open>
  C15. Runs of different chats share one \<open>ViewAdder\<close>: a run whose own request
  succeeded can report zero successes, because another chat's clean-up reset the
  counters in between.
\<close>

theorem bot_report_interference:
  assumes "valid u"
  shows "\<exists>b. bot_reach valid b \<and> run_chat (runs b ! 0) \<noteq> run_chat (runs b ! 1) \<and>
             run_own (runs b ! 0) = [(px, Status 200)] \<and>
             run_phase (runs b ! 0) = Reporting (Some (0, 0, 0))"
proof -
  define b1 where "b1 = botc_init\<lparr>runs := runs botc_init @ [\<lparr>run_chat = 1, run_phase = Scraping, run_own = []\<rparr>]\<rparr>"
  define b2 where "b2 = b1\<lparr>runs := runs b1 @ [\<lparr>run_chat = 2, run_phase = Scraping, run_own = []\<rparr>]\<rparr>"
  define b3 where "b3 = b2\<lparr>tasks_of := (tasks_of b2)(run_chat (runs b2 ! 0) \<mapsto> 0),
      runs := (runs b2)[0 := (runs b2 ! 0)\<lparr>run_phase := Dispatching [(px, Status 200)]\<rparr>]\<rparr>"
  define b4 where "b4 = b3\<lparr>engine := fst (add_view px (Status 200) (engine b3)),
      runs := (runs b3)[0 := (runs b3 ! 0)\<lparr>run_phase := Dispatching [],
        run_own := run_own (runs b3 ! 0) @ [(px, Status 200)]\<rparr>]\<rparr>"
  define b5 where "b5 = b4\<lparr>runs := (runs b4)[1 := (runs b4 ! 1)\<lparr>run_phase := Reporting None\<rparr>]\<rparr>"
  define b6 where "b6 = b5\<lparr>tasks_of := (tasks_of b5)(run_chat (runs b5 ! 1) := None),
      engine := reset_stats (engine b5),
      runs := (runs b5)[1 := (runs b5 ! 1)\<lparr>run_phase := Done None\<rparr>]\<rparr>"
  define b7 where "b7 = b6\<lparr>runs := (runs b6)[0 := (runs b6 ! 0)\<lparr>run_phase := Reporting (Some (get_stats (engine b6)))\<rparr>]\<rparr>"
  note defs = b1_def b2_def b3_def b4_def b5_def b6_def b7_def botc_init_def
  have "bot_step valid botc_init b1" unfolding b1_def
    by (rule bot_step.start [where valid = valid and u = u]) (simp_all add: botc_init_def assms)
  moreover have "bot_step valid b1 b2" unfolding b2_def
    by (rule bot_step.start [where valid = valid and u = u]) (simp_all add: b1_def botc_init_def assms)
  moreover have "bot_step valid b2 b3" unfolding b3_def
    by (rule bot_step.found) (simp_all add: b1_def b2_def botc_init_def)
  moreover have "bot_step valid b3 b4" unfolding b4_def
    by (rule bot_step.dispatch) (simp_all add: b1_def b2_def b3_def botc_init_def)
  moreover have "bot_step valid b4 b5" unfolding b5_def
    by (rule bot_step.none_found) (simp_all add: b1_def b2_def b3_def b4_def botc_init_def)
  moreover have "bot_step valid b5 b6" unfolding b6_def
    by (rule bot_step.finish) (simp_all add: b1_def b2_def b3_def b4_def b5_def botc_init_def)
  moreover have "bot_step valid b6 b7" unfolding b7_def
    by (rule bot_step.report) (simp_all add: b1_def b2_def b3_def b4_def b5_def b6_def botc_init_def)
  ultimately have "bot_reach valid b7" by (meson bot_reach.init bot_reach.step)
  moreover have "run_chat (runs b7 ! 0) \<noteq> run_chat (runs b7 ! 1) \<and>
      run_own (runs b7 ! 0) = [(px, Status 200)] \<and> run_phase (runs b7 ! 0) = Reporting (Some (0, 0, 0))"
    by (simp add: defs add_view_def reset_stats_def get_stats_def init_stats_def)
  ultimately show ?thesis by blast
qed

theorem bot_report_interference_witness:
  "\<exists>b. bot_reach (\<lambda>_. True) b \<and> run_chat (runs b ! 0) \<noteq> run_chat (runs b ! 1) \<and>
       run_own (runs b ! 0) = [(''1.2.3.4:80'', Status 200)] \<and>
       run_phase (runs b ! 0) = Reporting (Some (0, 0, 0))"
  using bot_report_interference [where valid = "\<lambda>_. True" and u = "''https://t.me/c/1''"
      and px = "''1.2.3.4:80''"]
  by simp

text \<open>
  C16. In every reachable state with no run in progress the counters are zero and
  \<open>active_tasks\<close> is empty.
\<close>

theorem bot_idle_clean:
  assumes "bot_reach valid b" "\<forall>r\<in>set (runs b). \<not> in_progress (run_phase r)"
  shows "engine b = init_stats \<and> tasks_of b = Map.empty"
proof -
  from bot_reach_inv [OF assms(1)] have inv: "bot_inv b" .
  from assms(2) have load: "sum_list (map own_load (runs b)) = 0"
    by (simp add: own_load_def sum_list_eq_0_iff)
  from assms(2) have "busy_chats (runs b) = {}" by (auto simp: busy_chats_def)
  with inv load show ?thesis
    by (cases "engine b") (auto simp: bot_inv_def init_stats_def)
qed

theorem bot_idle_clean_witness:
  "engine idle_trace = init_stats \<and> tasks_of idle_trace = Map.empty"
  using bot_idle_clean [OF idle_trace_reach] by (simp add: idle_trace_def)

text \<open>
  C17. A run that is the only one reports exactly the statistics of its own outcomes
  applied to fresh counters.
\<close>

theorem bot_single_run_report:
  assumes "bot_reach valid b" "runs b = [r]" "run_phase r = Reporting (Some rep)"
  shows "rep = get_stats (seq_views (map fst (run_own r)) (map snd (run_own r)) init_stats)"
proof -
  from bot_reach_single_inv [OF assms(1)] assms(2)
  have "\<forall>rep. run_phase r = Reporting (Some rep) \<longrightarrow> rep = get_stats (own_stats (run_own r))"
    unfolding single_inv_def by blast
  with assms(3) show ?thesis by (simp add: own_stats_def)
qed

theorem bot_single_run_report_witness:
  "(1, 0, 1) = get_stats (seq_views [''p''] [Status 200] init_stats)"
  using bot_single_run_report [OF single_trace_reach, where r = "hd (runs single_trace)" and rep = "(1, 0, 1)"]
  by (simp add: single_trace_def)

text \<open>
  C25. The status loop of a run reads the shared counters: while the run is the only
  one and is dispatching, every status message shows exactly the views, active proxies
  and errors of its own resolved requests, applied to fresh counters.
\<close>

theorem bot_status_single:
  assumes "bot_reach valid b" "runs b = [r]" "run_phase r = Dispatching w"
  shows "update_status_message (engine b) =
    update_status_message (seq_views (map fst (run_own r)) (map snd (run_own r)) init_stats)"
proof -
  from bot_reach_single_inv [OF assms(1)] assms(2)
  have "in_progress (run_phase r) \<longrightarrow> engine b = own_stats (run_own r)"
    unfolding single_inv_def by blast
  with assms(3) show ?thesis by (simp add: own_stats_def)
qed

theorem bot_status_single_witness:
  "update_status_message (engine dispatch_trace) = StatusMsg 1 1 0 800"
  using bot_status_single [OF dispatch_trace_reach, where r = "hd (runs dispatch_trace)" and w = "[]"]
  by (simp add: dispatch_trace_def update_status_message_def get_stats_def init_stats_def
      add_view_def THREAD_COUNT_def)

text \<open>
  Routing: a text that passes \<open>validate_telegram_url\<close> is never taken for the
  \<open>/start\<close> command, so every valid post URL reaches \<open>message_handler\<close> and its
  guards; \<open>/start\<close> in any form (\<open>/start@bot\<close>, \<open>/start x\<close>) changes nothing.
\<close>

lemma handle_message_routes:
  "(validate_telegram_url txt \<longrightarrow>
      handle_message net probe sched view_net c t txt b = message_handler net probe sched view_net c t txt b) \<and>
   (command_of txt = Some ''start'' \<longrightarrow> handle_message net probe sched view_net c t txt b = (WelcomeMsg, b))"
proof -
  have "validate_telegram_url txt \<Longrightarrow> command_of txt = None"
    by (subst validate_telegram_url_http) (auto simp: command_of_def)
  then show ?thesis by (auto simp: handle_message_def start_handler_def)
qed

lemma handle_message_routes_example:
  "handle_message (\<lambda>_. RequestError) (\<lambda>_. RequestError) sorted_list_of_set (\<lambda>_. ClientError) 7 0
     ''/start@ViewsBot hello'' \<lparr>active_tasks = [7 \<mapsto> 1], view_adder = init_stats, proxy_scraper = \<lparr>proxies = {}\<rparr>\<rparr> =
     (WelcomeMsg, \<lparr>active_tasks = [7 \<mapsto> 1], view_adder = init_stats, proxy_scraper = \<lparr>proxies = {}\<rparr>\<rparr>) \<and>
   handle_message (\<lambda>_. RequestError) (\<lambda>_. RequestError) sorted_list_of_set (\<lambda>_. ClientError) 7 0
     ''https://t.me/c/1'' \<lparr>active_tasks = [7 \<mapsto> 1], view_adder = init_stats, proxy_scraper = \<lparr>proxies = {}\<rparr>\<rparr> =
     (BusyMsg, \<lparr>active_tasks = [7 \<mapsto> 1], view_adder = init_stats, proxy_scraper = \<lparr>proxies = {}\<rparr>\<rparr>)"
proof -
  have v: "validate_telegram_url ''https://t.me/c/1''"
    by (simp add: validate_telegram_url_def re_match_def tg_pattern_def mt_lit is_ascii_word_def is_digit_def)
  have s: "command_of ''/start@ViewsBot hello'' = Some ''start''" by (simp add: command_of_def py_space_def)
  show ?thesis
    using handle_message_routes [of "''https://t.me/c/1''" "\<lambda>_. RequestError" "\<lambda>_. RequestError"
        sorted_list_of_set "\<lambda>_. ClientError" 7 0 "\<lparr>active_tasks = [7 \<mapsto> 1], view_adder = init_stats,
        proxy_scraper = \<lparr>proxies = {}\<rparr>\<rparr>"]
      handle_message_routes [of "''/start@ViewsBot hello''" "\<lambda>_. RequestError" "\<lambda>_. RequestError"
        sorted_list_of_set "\<lambda>_. ClientError" 7 0 "\<lparr>active_tasks = [7 \<mapsto> 1], view_adder = init_stats,
        proxy_scraper = \<lparr>proxies = {}\<rparr>\<rparr>"] v s
    by (simp add: message_handler_def)
qed

end
