(* ===== verification/BotTrace.thy ===== *)
theory BotTrace
  imports Bot
begin

text \<open>
  The messages the bot sends (src/main.py), on top of the interleaving model of theory
  Bot. A state adds to \<open>botc\<close> the messages sent so far (\<open>outbox\<close>: the run that
  sent it, if any, the chat and the reply) and the runs whose \<open>status_update_loop\<close>
  task is alive (\<open>live_loops\<close>). The steps of \<open>obs_step\<close> are those of \<open>bot_step\<close>,
  each with what it sends:
  \<^item> \<open>busy\<close>, \<open>invalid\<close>: \<open>message_handler\<close> refuses (lines 152-166);
  \<^item> \<open>start\<close>: \<open>bot.send_message\<close> of the initial text (line 58);
  \<^item> \<open>none_found\<close>: the no-proxies text (line 75);
  \<^item> \<open>found\<close>: the chat is registered, the start text with the number of working
    proxies is sent (lines 83-92) and the status task is created (line 95);
  \<^item> \<open>status\<close>: one round of \<open>status_update_loop\<close> (lines 128-137), which sends
    \<open>update_status_message\<close> of the shared counters while its task is alive;
  \<^item> \<open>dispatch\<close>: one request of \<open>process_views\<close> resolves;
  \<^item> \<open>report\<close>: \<open>update_task.cancel()\<close>, \<open>get_stats\<close> and the final text (lines 98-114);
  \<^item> \<open>fail\<close>: an exception reaches the \<open>except\<close> block, which sends the error text
    (lines 116-121); the status task is not cancelled on this path;
  \<^item> \<open>finish\<close>: the \<open>finally\<close> block (lines 122-126).
  The progress edits of the scrape callback and the three-second sleep are not
  modelled: the loop may send at any moment while its task is alive.
\<close>

type_synonym sent = "nat option \<times> chat \<times> reply"

record bot_obs =
  core :: botc
  outbox :: "sent list"
  live_loops :: "nat set"

definition obs_init :: bot_obs where
  "obs_init = \<lparr>core = botc_init, outbox = [], live_loops = {}\<rparr>"

text \<open>The final text: views, active proxies, errors.\<close>

definition final_msg :: "stats \<Rightarrow> reply" where
  "final_msg s = (case get_stats s of (v, e, a) \<Rightarrow> FinalMsg v a e)"

inductive obs_step :: "(url \<Rightarrow> bool) \<Rightarrow> bot_obs \<Rightarrow> bot_obs \<Rightarrow> bool" for valid where
  busy: "c \<in> dom (tasks_of (core s)) \<Longrightarrow>
    obs_step valid s (s\<lparr>outbox := outbox s @ [(None, c, BusyMsg)]\<rparr>)"
| invalid: "c \<notin> dom (tasks_of (core s)) \<Longrightarrow> \<not> valid u \<Longrightarrow>
    obs_step valid s (s\<lparr>outbox := outbox s @ [(None, c, InvalidUrlMsg)]\<rparr>)"
| start: "c \<notin> dom (tasks_of (core s)) \<Longrightarrow> valid u \<Longrightarrow>
    obs_step valid s (s\<lparr>core := (core s)\<lparr>runs := runs (core s) @ [\<lparr>run_chat = c, run_phase = Scraping, run_own = []\<rparr>]\<rparr>,
                        outbox := outbox s @ [(Some (length (runs (core s))), c, InitMsg)]\<rparr>)"
| none_found: "i < length (runs (core s)) \<Longrightarrow> run_phase (runs (core s) ! i) = Scraping \<Longrightarrow>
    obs_step valid s (s\<lparr>core := (core s)\<lparr>runs := (runs (core s))[i := (runs (core s) ! i)\<lparr>run_phase := Reporting None\<rparr>]\<rparr>,
                        outbox := outbox s @ [(Some i, run_chat (runs (core s) ! i), NoProxiesMsg)]\<rparr>)"
| found: "i < length (runs (core s)) \<Longrightarrow> run_phase (runs (core s) ! i) = Scraping \<Longrightarrow> work \<noteq> [] \<Longrightarrow>
    obs_step valid s (s\<lparr>core := (core s)\<lparr>tasks_of := (tasks_of (core s))(run_chat (runs (core s) ! i) \<mapsto> t),
                          runs := (runs (core s))[i := (runs (core s) ! i)\<lparr>run_phase := Dispatching work\<rparr>]\<rparr>,
                        outbox := outbox s @ [(Some i, run_chat (runs (core s) ! i), StartingMsg (length work))],
                        live_loops := insert i (live_loops s)\<rparr>)"
| status: "i < length (runs (core s)) \<Longrightarrow> i \<in> live_loops s \<Longrightarrow>
    obs_step valid s (s\<lparr>outbox := outbox s @ [(Some i, run_chat (runs (core s) ! i), update_status_message (engine (core s)))]\<rparr>)"
| dispatch: "i < length (runs (core s)) \<Longrightarrow> run_phase (runs (core s) ! i) = Dispatching ((px, r) # rest) \<Longrightarrow>
    obs_step valid s (s\<lparr>core := (core s)\<lparr>engine := fst (add_view px r (engine (core s))),
                          runs := (runs (core s))[i := (runs (core s) ! i)\<lparr>run_phase := Dispatching rest,
                                     run_own := run_own (runs (core s) ! i) @ [(px, r)]\<rparr>]\<rparr>\<rparr>)"
| report: "i < length (runs (core s)) \<Longrightarrow> run_phase (runs (core s) ! i) = Dispatching [] \<Longrightarrow>
    obs_step valid s (s\<lparr>core := (core s)\<lparr>runs := (runs (core s))[i := (runs (core s) ! i)\<lparr>run_phase :=
                             Reporting (Some (get_stats (engine (core s))))\<rparr>]\<rparr>,
                        outbox := outbox s @ [(Some i, run_chat (runs (core s) ! i), final_msg (engine (core s)))],
                        live_loops := live_loops s - {i}\<rparr>)"
| fail: "i < length (runs (core s)) \<Longrightarrow> run_phase (runs (core s) ! i) \<in> {Scraping} \<union> range Dispatching \<Longrightarrow>
    obs_step valid s (s\<lparr>core := (core s)\<lparr>runs := (runs (core s))[i := (runs (core s) ! i)\<lparr>run_phase := Reporting None\<rparr>]\<rparr>,
                        outbox := outbox s @ [(Some i, run_chat (runs (core s) ! i), ErrorMsg)]\<rparr>)"
| finish: "i < length (runs (core s)) \<Longrightarrow> run_phase (runs (core s) ! i) = Reporting rep \<Longrightarrow>
    obs_step valid s (s\<lparr>core := (core s)\<lparr>tasks_of := (tasks_of (core s))(run_chat (runs (core s) ! i) := None),
                          engine := reset_stats (engine (core s)),
                          runs := (runs (core s))[i := (runs (core s) ! i)\<lparr>run_phase := Done rep\<rparr>]\<rparr>\<rparr>)"

inductive obs_reach :: "(url \<Rightarrow> bool) \<Rightarrow> bot_obs \<Rightarrow> bool" for valid where
  init: "obs_reach valid obs_init"
| step: "obs_reach valid s \<Longrightarrow> obs_step valid s t \<Longrightarrow> obs_reach valid t"


text \<open>
  The protocol of one run's messages, as a recogniser: \<open>prun\<close> reads a sequence and
  fails on a message the protocol does not allow in the state reached.
\<close>

datatype pstate = PStart | PInit | PStarted | PFinal | PErrLive

fun pstep :: "pstate \<Rightarrow> reply \<Rightarrow> pstate option" where
  "pstep PStart InitMsg = Some PInit"
| "pstep PInit NoProxiesMsg = Some PFinal"
| "pstep PInit ErrorMsg = Some PFinal"
| "pstep PInit (StartingMsg n) = Some PStarted"
| "pstep PStarted (StatusMsg v a e n) = Some PStarted"
| "pstep PStarted (FinalMsg v a e) = Some PFinal"
| "pstep PStarted ErrorMsg = Some PErrLive"
| "pstep PErrLive (StatusMsg v a e n) = Some PErrLive"
| "pstep _ _ = None"

fun prun :: "pstate \<Rightarrow> reply list \<Rightarrow> pstate option" where
  "prun q [] = Some q"
| "prun q (m # ms) = (case pstep q m of None \<Rightarrow> None | Some q' \<Rightarrow> prun q' ms)"

definition run_msgs :: "nat \<Rightarrow> sent list \<Rightarrow> reply list" where
  "run_msgs i ob = map (\<lambda>(r, c, m). m) (filter (\<lambda>(r, c, m). r = Some i) ob)"

text \<open>
  The invariant: the messages of run \<open>i\<close> lead the recogniser to the state its phase
  and status task determine; runs not yet started have sent nothing.
\<close>

fun expect :: "phase \<Rightarrow> bool \<Rightarrow> pstate" where
  "expect Scraping _ = PInit"
| "expect (Dispatching _) _ = PStarted"
| "expect _ True = PErrLive"
| "expect _ False = PFinal"

definition obs_inv :: "bot_obs \<Rightarrow> bool" where
  "obs_inv s \<longleftrightarrow>
     (\<forall>i. if i < length (runs (core s))
          then prun PStart (run_msgs i (outbox s)) =
                 Some (expect (run_phase (runs (core s) ! i)) (i \<in> live_loops s)) \<and>
               (run_phase (runs (core s) ! i) = Scraping \<longrightarrow> i \<notin> live_loops s) \<and>
               (run_phase (runs (core s) ! i) \<in> range Dispatching \<longrightarrow> i \<in> live_loops s)
          else run_msgs i (outbox s) = [] \<and> i \<notin> live_loops s)"

definition run_protocol :: "reply list \<Rightarrow> bool" where
  "run_protocol ms \<longleftrightarrow> prun PStart ms \<noteq> None"

text \<open>Two sample states: a run that fails while dispatching, and one that reports.\<close>

definition leak_trace :: bot_obs where
  "leak_trace =
     \<lparr>core = \<lparr>tasks_of = Map.empty, engine = reset_stats init_stats,
               runs = [\<lparr>run_chat = 1, run_phase = Done None, run_own = []\<rparr>]\<rparr>,
      outbox = [(Some 0, 1, InitMsg), (Some 0, 1, StartingMsg 1), (Some 0, 1, ErrorMsg),
                (Some 0, 1, update_status_message (reset_stats init_stats))],
      live_loops = {0}\<rparr>"

definition report_trace :: bot_obs where
  "report_trace =
     \<lparr>core = \<lparr>tasks_of = Map.empty, engine = reset_stats (fst (add_view ''p'' (Status 200) init_stats)),
               runs = [\<lparr>run_chat = 1, run_phase = Done (Some (1, 0, 1)), run_own = [(''p'', Status 200)]\<rparr>]\<rparr>,
      outbox = [(Some 0, 1, InitMsg), (Some 0, 1, StartingMsg 1), (Some 0, 1, StatusMsg 1 1 0 800),
                (Some 0, 1, FinalMsg 1 1 0)],
      live_loops = {}\<rparr>"

section \<open>Lemmas\<close>

lemma obs_step_sim: "obs_step valid s t \<Longrightarrow> bot_step valid (core s) (core t) \<or> core t = core s"
proof (induction rule: obs_step.induct)
  case (start c s u)
  then show ?case by (simp add: bot_step.start)
next
  case (none_found i s)
  then show ?case by (simp add: bot_step.none_found)
next
  case (found i s work t)
  then show ?case by (simp add: bot_step.found)
next
  case (dispatch i s px r rest)
  then show ?case by (simp add: bot_step.dispatch)
next
  case (report i s)
  then show ?case by (simp add: bot_step.report)
next
  case (fail i s)
  then show ?case by (simp add: bot_step.fail)
next
  case (finish i s rep)
  then show ?case by (simp add: bot_step.finish)
qed simp_all

lemma prun_snoc: "prun q (ms @ [m]) = (case prun q ms of None \<Rightarrow> None | Some q' \<Rightarrow> pstep q' m)"
  by (induction q ms rule: prun.induct) (auto split: option.splits)

lemma run_msgs_snoc:
  "run_msgs i (ob @ [(r, c, m)]) = run_msgs i ob @ (if r = Some i then [m] else [])"
  by (simp add: run_msgs_def)

lemma obs_inv_init: "obs_inv obs_init"
  by (simp add: obs_inv_def obs_init_def botc_init_def run_msgs_def)

lemma update_status_message_Status: "\<exists>v a e n. update_status_message s = StatusMsg v a e n"
  by (simp add: update_status_message_def split: prod.splits)

lemma final_msg_Final: "\<exists>v a e. final_msg s = FinalMsg v a e"
  by (simp add: final_msg_def split: prod.splits)

lemma expect_status: "p \<noteq> Scraping \<Longrightarrow> pstep (expect p True) (StatusMsg v a e n) = Some (expect p True)"
  by (cases p) auto

lemma expect_done: "expect (Done r) b = expect (Reporting r) b"
  by (cases b) auto

lemma obs_step_inv: "obs_step valid s t \<Longrightarrow> obs_inv s \<Longrightarrow> obs_inv t"
proof (induction rule: obs_step.induct)
  case (busy c s)
  then show ?case by (simp add: obs_inv_def run_msgs_snoc)
next
  case (invalid c s u)
  then show ?case by (simp add: obs_inv_def run_msgs_snoc)
next
  case (start c s u)
  then show ?case by (auto simp: obs_inv_def run_msgs_snoc nth_append prun_snoc)
next
  case (none_found i s)
  then show ?case by (auto simp: obs_inv_def run_msgs_snoc nth_list_update prun_snoc)
next
  case (found i s work t)
  then show ?case by (auto simp: obs_inv_def run_msgs_snoc nth_list_update prun_snoc)
next
  case (status i s)
  obtain v a e n where u: "update_status_message (engine (core s)) = StatusMsg v a e n"
    using update_status_message_Status by blast
  from status have "run_phase (runs (core s) ! i) \<noteq> Scraping" by (auto simp: obs_inv_def)
  with status u show ?case
    by (auto simp: obs_inv_def run_msgs_snoc prun_snoc expect_status)
next
  case (dispatch i s px r rest)
  then show ?case by (auto simp: obs_inv_def nth_list_update)
next
  case (report i s)
  obtain v a e where f: "final_msg (engine (core s)) = FinalMsg v a e"
    using final_msg_Final by blast
  with report show ?case by (auto simp: obs_inv_def run_msgs_snoc nth_list_update prun_snoc)
next
  case (fail i s)
  then show ?case by (auto simp: obs_inv_def run_msgs_snoc nth_list_update prun_snoc)
next
  case (finish i s rep)
  then show ?case by (auto simp: obs_inv_def nth_list_update expect_done)
qed

lemma obs_reach_inv: "obs_reach valid s \<Longrightarrow> obs_inv s"
  by (induction rule: obs_reach.induct) (auto intro: obs_inv_init obs_step_inv)

lemma prun_append: "prun q (xs @ ys) = (case prun q xs of None \<Rightarrow> None | Some q' \<Rightarrow> prun q' ys)"
  by (induction q xs rule: prun.induct) (auto split: option.splits)

lemma prun_PFinal: "prun PFinal ys \<noteq> None \<Longrightarrow> ys = []"
  by (cases ys) (auto split: option.splits)

lemma obs_reach_protocol: "obs_reach valid s \<Longrightarrow> prun PStart (run_msgs i (outbox s)) \<noteq> None"
proof -
  assume "obs_reach valid s"
  from obs_reach_inv [OF this] have "if i < length (runs (core s))
      then prun PStart (run_msgs i (outbox s)) = Some (expect (run_phase (runs (core s) ! i)) (i \<in> live_loops s)) \<and>
        (run_phase (runs (core s) ! i) = Scraping \<longrightarrow> i \<notin> live_loops s) \<and>
        (run_phase (runs (core s) ! i) \<in> range Dispatching \<longrightarrow> i \<in> live_loops s)
      else run_msgs i (outbox s) = [] \<and> i \<notin> live_loops s"
    unfolding obs_inv_def by (rule spec)
  then show ?thesis by (simp split: if_splits)
qed

lemma obs_reach_into: "obs_reach valid s \<Longrightarrow> obs_step valid s t \<Longrightarrow> t = t' \<Longrightarrow> obs_reach valid t'"
  by (simp add: obs_reach.step)

lemma leak_trace_reach: "valid u \<Longrightarrow> obs_reach valid leak_trace"
proof -
  assume v: "valid u"
  let ?w = "[(''p'', Status 200)]"
  let ?S = "\<lambda>tk e ph ob l. \<lparr>core = \<lparr>tasks_of = tk, engine = e,
      runs = [\<lparr>run_chat = 1, run_phase = ph, run_own = []\<rparr>]\<rparr>, outbox = ob, live_loops = l\<rparr>"
  let ?m1 = "[(Some 0, 1::chat, InitMsg)]"
  let ?m2 = "?m1 @ [(Some 0, 1, StartingMsg 1)]"
  let ?m3 = "?m2 @ [(Some 0, 1, ErrorMsg)]"
  have r1: "obs_reach valid (?S Map.empty init_stats Scraping ?m1 {})"
    by (rule obs_reach_into [OF obs_reach.init obs_step.start [where u = u and c = 1]])
      (simp_all add: v obs_init_def botc_init_def)
  have r2: "obs_reach valid (?S [1 \<mapsto> 0] init_stats (Dispatching ?w) ?m2 {0})"
    by (rule obs_reach_into [OF r1 obs_step.found [where i = 0 and work = ?w and t = 0]]) simp_all
  have r3: "obs_reach valid (?S [1 \<mapsto> 0] init_stats (Reporting None) ?m3 {0})"
    by (rule obs_reach_into [OF r2 obs_step.fail [where i = 0]]) simp_all
  have r4: "obs_reach valid (?S Map.empty (reset_stats init_stats) (Done None) ?m3 {0})"
    by (rule obs_reach_into [OF r3 obs_step.finish [where i = 0]]) simp_all
  have "obs_reach valid (?S Map.empty (reset_stats init_stats) (Done None)
      (?m3 @ [(Some 0, 1, update_status_message (reset_stats init_stats))]) {0})"
    by (rule obs_reach_into [OF r4 obs_step.status [where i = 0]]) simp_all
  then show ?thesis by (simp add: leak_trace_def)
qed

lemma report_trace_reach: "valid u \<Longrightarrow> obs_reach valid report_trace"
proof -
  assume v: "valid u"
  let ?w = "[(''p'', Status 200)]"
  let ?e = "fst (add_view ''p'' (Status 200) init_stats)"
  let ?S = "\<lambda>tk e ph own ob l. \<lparr>core = \<lparr>tasks_of = tk, engine = e,
      runs = [\<lparr>run_chat = 1, run_phase = ph, run_own = own\<rparr>]\<rparr>, outbox = ob, live_loops = l\<rparr>"
  let ?m1 = "[(Some 0, 1::chat, InitMsg)]"
  let ?m2 = "?m1 @ [(Some 0, 1, StartingMsg 1)]"
  let ?m3 = "?m2 @ [(Some 0, 1, update_status_message ?e)]"
  let ?m4 = "?m3 @ [(Some 0, 1, final_msg ?e)]"
  have r1: "obs_reach valid (?S Map.empty init_stats Scraping [] ?m1 {})"
    by (rule obs_reach_into [OF obs_reach.init obs_step.start [where u = u and c = 1]])
      (simp_all add: v obs_init_def botc_init_def)
  have r2: "obs_reach valid (?S [1 \<mapsto> 0] init_stats (Dispatching ?w) [] ?m2 {0})"
    by (rule obs_reach_into [OF r1 obs_step.found [where i = 0 and work = ?w and t = 0]]) simp_all
  have r3: "obs_reach valid (?S [1 \<mapsto> 0] ?e (Dispatching []) ?w ?m2 {0})"
    by (rule obs_reach_into [OF r2 obs_step.dispatch [where i = 0]]) simp_all
  have r4: "obs_reach valid (?S [1 \<mapsto> 0] ?e (Dispatching []) ?w ?m3 {0})"
    by (rule obs_reach_into [OF r3 obs_step.status [where i = 0]]) simp_all
  have r5: "obs_reach valid (?S [1 \<mapsto> 0] ?e (Reporting (Some (get_stats ?e))) ?w ?m4 {})"
    by (rule obs_reach_into [OF r4 obs_step.report [where i = 0]]) simp_all
  have "obs_reach valid (?S Map.empty (reset_stats ?e) (Done (Some (get_stats ?e))) ?w ?m4 {})"
    by (rule obs_reach_into [OF r5 obs_step.finish [where i = 0]]) simp_all
  then show ?thesis
    by (simp add: report_trace_def update_status_message_def final_msg_def get_stats_def add_view_def
        init_stats_def THREAD_COUNT_def)
qed

lemma pstep_terminal:
  "pstep q NoProxiesMsg = Some q' \<Longrightarrow> q' = PFinal"
  "pstep q (FinalMsg v a e) = Some q' \<Longrightarrow> q' = PFinal"
  by (cases q; simp)+

section \<open>Properties of the messages\<close>

text \<open>
  The state part of every reachable state of the message model is reachable by
  \<open>bot_step\<close>, so every invariant proved in theory Bot holds here too.
\<close>

lemma obs_refines_bot: "obs_reach valid s \<Longrightarrow> bot_reach valid (core s)"
proof (induction rule: obs_reach.induct)
  case init
  then show ?case by (simp add: obs_init_def bot_reach.init)
next
  case (step s t)
  from obs_step_sim [OF step.hyps(2)] step.IH show ?case by (auto intro: bot_reach.step)
qed

text \<open>
  C27. The messages of every run follow the protocol of \<open>process_views_task\<close>: the
  initial message first; then either the no-proxies or the error message, or the
  start message, any number of status messages and the final report or an error
  message; after an error that follows the start, only status messages. The
  recogniser is \<open>prun\<close>.
\<close>

theorem obs_run_protocol: "obs_reach valid s \<Longrightarrow> run_protocol (run_msgs i (outbox s))"
  unfolding run_protocol_def by (rule obs_reach_protocol)

theorem obs_run_protocol_witness:
  "run_protocol [InitMsg, StartingMsg 1, StatusMsg 1 1 0 800, FinalMsg 1 1 0]"
  using obs_run_protocol [OF report_trace_reach [of "\<lambda>_. True" "''https://t.me/c/1''"], of 0]
  by (simp add: report_trace_def run_msgs_def)

text \<open>
  C28. Nothing is sent for a run after its final report or its no-proxies message:
  \<open>update_task.cancel()\<close> runs before the final report, and no status loop exists
  before the start message.
\<close>

theorem obs_final_is_last:
  assumes "obs_reach valid s" "run_msgs i (outbox s) = xs @ m # ys"
    and "m = NoProxiesMsg \<or> m = FinalMsg v a e"
  shows "ys = []"
proof -
  from obs_reach_protocol [OF assms(1), of i] assms(2)
  obtain q q' where "prun PStart xs = Some q" "pstep q m = Some q'" "prun q' ys \<noteq> None"
    by (auto simp: prun_append split: option.splits)
  with assms(3) pstep_terminal have "prun PFinal ys \<noteq> None" by blast
  then show ?thesis by (rule prun_PFinal)
qed

theorem obs_final_is_last_witness:
  "run_msgs 0 (outbox report_trace) = [InitMsg, StartingMsg 1, StatusMsg 1 1 0 800] @ FinalMsg 1 1 0 # []"
proof -
  have m: "run_msgs 0 (outbox report_trace) = [InitMsg, StartingMsg 1, StatusMsg 1 1 0 800] @ FinalMsg 1 1 0 # []"
    by (simp add: report_trace_def run_msgs_def)
  from obs_final_is_last [OF report_trace_reach [of "\<lambda>_. True" "''https://t.me/c/1''"] m] show ?thesis
    using m by simp
qed

text \<open>
  C29. The status loop of a run that fails after it started dispatching is never
  cancelled: \<open>update_task.cancel()\<close> (line 101) is only on the path that returns
  normally, so after the error message and the clean-up the loop still edits the
  chat's status message with the (reset) counters.
\<close>

theorem obs_status_loop_leak:
  assumes "valid u"
  shows "\<exists>s. obs_reach valid s \<and> run_phase (runs (core s) ! 0) = Done None \<and> 0 \<in> live_loops s \<and>
    run_msgs 0 (outbox s) = [InitMsg, StartingMsg 1, ErrorMsg, StatusMsg 0 0 0 THREAD_COUNT]"
proof -
  have "run_msgs 0 (outbox leak_trace) = [InitMsg, StartingMsg 1, ErrorMsg, StatusMsg 0 0 0 THREAD_COUNT]"
    by (simp add: leak_trace_def run_msgs_def update_status_message_def get_stats_def reset_stats_def init_stats_def)
  with leak_trace_reach [where valid = valid and u = u, OF assms] show ?thesis by (intro exI [of _ leak_trace]) (simp add: leak_trace_def)
qed

theorem obs_status_loop_leak_witness:
  "\<exists>s. obs_reach (\<lambda>_. True) s \<and> run_phase (runs (core s) ! 0) = Done None \<and> 0 \<in> live_loops s \<and>
    run_msgs 0 (outbox s) = [InitMsg, StartingMsg 1, ErrorMsg, StatusMsg 0 0 0 THREAD_COUNT]"
  using obs_status_loop_leak [of "\<lambda>_. True" "''https://t.me/c/1''"] by simp

end
