(* ===== verification/Executor.thy ===== *)
theory Executor
  imports ProxyScraper
begin

text \<open>
  The validation pool of \<open>ProxyScraper.scrape\<close> (src/proxy_scrapper.py lines 89-95):
  \<open>ThreadPoolExecutor(max_workers=50)\<close>, one \<open>executor.submit(self.test_proxy, proxy)\<close>
  per member of \<open>self.proxies\<close> in the set's iteration order, and the
  \<open>as_completed\<close> loop. A state holds the proxies not yet submitted, the executor's
  FIFO work queue, the ones a worker thread is testing, the finished futures
  \<open>as_completed\<close> has not yet handed out, and the order in which it did. The steps:
  \<^item> \<open>submit\<close>: the dict comprehension submits the next proxy (to the end of the queue);
  \<^item> \<open>start\<close>: a worker takes the head of the queue, while fewer than \<open>max_workers\<close>
    are busy (the executor starts at most \<open>max_workers\<close> threads, each running one
    work item at a time);
  \<^item> \<open>finish\<close>: any running test completes (threads run in parallel);
  \<^item> \<open>yield\<close>: once the comprehension is done and \<open>as_completed\<close> iterates, it hands
    out a finished future; any finished one may come first (the futures already done
    when it starts come in set order, later ones in completion order).
  The result of each test is \<open>test_proxy probe\<close> of the proxy, which the loop body of
  \<open>scrape\<close> (\<open>test_loop\<close>) reads in the order the futures are yielded.
\<close>

record pool =
  unsubmitted :: "proxy list"
  work_queue :: "proxy list"
  running :: "proxy list"
  finished :: "proxy list"
  yielded :: "proxy list"

text \<open>Submission order: the iteration order of \<open>self.proxies\<close>.\<close>

definition pool_init :: "proxy list \<Rightarrow> pool" where
  "pool_init order = \<lparr>unsubmitted = order, work_queue = [], running = [], finished = [], yielded = []\<rparr>"

definition del_at :: "nat \<Rightarrow> 'a list \<Rightarrow> 'a list" where
  "del_at i xs = take i xs @ drop (Suc i) xs"

inductive pool_step :: "nat \<Rightarrow> pool \<Rightarrow> pool \<Rightarrow> bool" for max_workers where
  submit: "unsubmitted s = p # ps \<Longrightarrow>
    pool_step max_workers s (s\<lparr>unsubmitted := ps, work_queue := work_queue s @ [p]\<rparr>)"
| start: "work_queue s = p # q \<Longrightarrow> length (running s) < max_workers \<Longrightarrow>
    pool_step max_workers s (s\<lparr>work_queue := q, running := running s @ [p]\<rparr>)"
| finish: "i < length (running s) \<Longrightarrow>
    pool_step max_workers s (s\<lparr>running := del_at i (running s), finished := finished s @ [running s ! i]\<rparr>)"
| yield: "unsubmitted s = [] \<Longrightarrow> i < length (finished s) \<Longrightarrow>
    pool_step max_workers s (s\<lparr>finished := del_at i (finished s), yielded := yielded s @ [finished s ! i]\<rparr>)"

inductive pool_reach :: "nat \<Rightarrow> proxy list \<Rightarrow> pool \<Rightarrow> bool" for max_workers order where
  init: "pool_reach max_workers order (pool_init order)"
| step: "pool_reach max_workers order s \<Longrightarrow> pool_step max_workers s t \<Longrightarrow> pool_reach max_workers order t"

text \<open>The \<open>as_completed\<close> loop has ended: every future has been handed out.\<close>

definition pool_done :: "pool \<Rightarrow> bool" where
  "pool_done s \<longleftrightarrow> unsubmitted s = [] \<and> work_queue s = [] \<and> running s = [] \<and> finished s = []"

text \<open>All the proxies of a state, and a progress measure (each proxy moves through
  four places in order).\<close>

definition pool_items :: "pool \<Rightarrow> proxy list" where
  "pool_items s = unsubmitted s @ work_queue s @ running s @ finished s @ yielded s"

definition pool_rank :: "pool \<Rightarrow> nat" where
  "pool_rank s = length (work_queue s) + 2 * length (running s) + 3 * length (finished s) + 4 * length (yielded s)"

section \<open>Lemmas\<close>

lemma mset_del_at: "i < length xs \<Longrightarrow> mset (del_at i xs) + {#xs ! i#} = mset xs"
proof -
  assume i: "i < length xs"
  have "mset xs = mset (take i xs @ xs ! i # drop (Suc i) xs)" by (simp add: i id_take_nth_drop [symmetric])
  then show ?thesis by (simp add: del_at_def)
qed

lemma length_del_at: "i < length xs \<Longrightarrow> length (del_at i xs) = length xs - 1"
  by (simp add: del_at_def)

lemma pool_step_items: "pool_step w s t \<Longrightarrow> mset (pool_items t) = mset (pool_items s)"
proof (induction rule: pool_step.induct)
  case (finish i s)
  then show ?case using mset_del_at [OF finish] by (simp add: pool_items_def algebra_simps)
next
  case (yield s i)
  then show ?case using mset_del_at [OF yield(2)] by (simp add: pool_items_def algebra_simps)
qed (simp_all add: pool_items_def)

lemma pool_step_rank: "pool_step w s t \<Longrightarrow> pool_rank t = Suc (pool_rank s)"
  by (induction rule: pool_step.induct) (auto simp: pool_rank_def length_del_at)

lemma pool_reach_items: "pool_reach w order s \<Longrightarrow> mset (pool_items s) = mset order"
  by (induction rule: pool_reach.induct) (auto simp: pool_init_def pool_items_def dest: pool_step_items)

lemma pool_done_items: "pool_done s \<Longrightarrow> pool_items s = yielded s"
  by (simp add: pool_done_def pool_items_def)

lemma pool_reach_length: "pool_reach w order s \<Longrightarrow> length (pool_items s) = length order"
  by (metis pool_reach_items size_mset)

lemma pool_done_order:
  assumes "distinct order" "pool_reach w order s" "pool_done s"
  shows "distinct (yielded s) \<and> set (yielded s) = set order \<and> length (yielded s) = length order"
proof -
  from pool_reach_items [OF assms(2)] pool_done_items [OF assms(3)]
  have m: "mset (yielded s) = mset order" by simp
  then have "set (yielded s) = set order" by (metis set_mset_mset)
  moreover from m assms(1) have "distinct (yielded s)" by (metis distinct_count_atmost_1 count_mset set_mset_mset)
  moreover from m have "length (yielded s) = length order" by (metis size_mset)
  ultimately show ?thesis by simp
qed

lemma sample_pool_run:
  defines "a \<equiv> ''1.1.1.1:80''" and "b \<equiv> ''2.2.2.2:80''"
  shows "pool_reach 1 [a, b] \<lparr>unsubmitted = [], work_queue = [b], running = [a], finished = [], yielded = []\<rparr>"
    and "pool_reach 50 [a, b] \<lparr>unsubmitted = [], work_queue = [], running = [], finished = [], yielded = [b, a]\<rparr>"
proof -
  have s2: "pool_reach w [a, b] \<lparr>unsubmitted = [], work_queue = [a, b], running = [], finished = [], yielded = []\<rparr>" for w
  proof -
    have "pool_reach w [a, b] \<lparr>unsubmitted = [b], work_queue = [a], running = [], finished = [], yielded = []\<rparr>"
      using pool_reach.step [OF pool_reach.init pool_step.submit [of "pool_init [a, b]" a "[b]"]]
      by (simp add: pool_init_def)
    from pool_reach.step [OF this pool_step.submit [where p = b and ps = "[]"]] show ?thesis by simp
  qed
  have s3: "pool_reach w [a, b] \<lparr>unsubmitted = [], work_queue = [b], running = [a], finished = [], yielded = []\<rparr>"
    if "0 < w" for w
    using pool_reach.step [OF s2 pool_step.start [where p = a and q = "[b]"]] that by simp
  then show "pool_reach 1 [a, b] \<lparr>unsubmitted = [], work_queue = [b], running = [a], finished = [], yielded = []\<rparr>"
    by simp
  have "pool_reach 50 [a, b] \<lparr>unsubmitted = [], work_queue = [], running = [a, b], finished = [], yielded = []\<rparr>"
    using pool_reach.step [OF s3 pool_step.start [where p = b and q = "[]"]] by simp
  from pool_reach.step [OF this pool_step.finish [where i = 1]]
  have "pool_reach 50 [a, b] \<lparr>unsubmitted = [], work_queue = [], running = [a], finished = [b], yielded = []\<rparr>"
    by (simp add: del_at_def)
  from pool_reach.step [OF this pool_step.finish [where i = 0]]
  have "pool_reach 50 [a, b] \<lparr>unsubmitted = [], work_queue = [], running = [], finished = [b, a], yielded = []\<rparr>"
    by (simp add: del_at_def)
  from pool_reach.step [OF this pool_step.yield [where i = 0]]
  have "pool_reach 50 [a, b] \<lparr>unsubmitted = [], work_queue = [], running = [], finished = [a], yielded = [b]\<rparr>"
    by (simp add: del_at_def)
  from pool_reach.step [OF this pool_step.yield [where i = 0]]
  show "pool_reach 50 [a, b] \<lparr>unsubmitted = [], work_queue = [], running = [], finished = [], yielded = [b, a]\<rparr>"
    by (simp add: del_at_def)
qed

lemma pool_can_step:
  "0 < w \<Longrightarrow> \<not> pool_done s \<Longrightarrow> \<exists>t. pool_step w s t"
proof -
  assume w: "0 < w" and nd: "\<not> pool_done s"
  show ?thesis
  proof (cases "unsubmitted s")
    case (Cons p ps)
    then show ?thesis by (blast intro: pool_step.submit)
  next
    case Nil
    show ?thesis
    proof (cases "running s = []")
      case False
      then show ?thesis by (blast intro: pool_step.finish [of 0])
    next
      case True
      show ?thesis
      proof (cases "work_queue s")
        case (Cons p q)
        moreover from True w have "length (running s) < w" by simp
        ultimately show ?thesis by (blast intro: pool_step.start)
      next
        case qn: Nil
        with Nil True nd have "finished s \<noteq> []" by (simp add: pool_done_def)
        with Nil show ?thesis by (blast intro: pool_step.yield [of _ 0])
      qed
    qed
  qed
qed

section \<open>Properties of the pool\<close>

text \<open>
  C22. The pool refines the completion-order parameter of \<open>scrape\<close>: when the
  \<open>as_completed\<close> loop has ended, the proxies came out each exactly once, and the
  validation loop over that order raises nothing, counts every proxy and returns each
  proxy that passes the probe exactly once.
\<close>

theorem pool_validation_result:
  assumes "distinct order" "pool_reach w order s" "pool_done s"
  shows "\<exists>ev'. test_loop probe cb (length order) (yielded s) 0 [] ev =
           Inr (length order, filter (test_proxy probe) (yielded s), ev') \<and>
         distinct (filter (test_proxy probe) (yielded s)) \<and>
         set (filter (test_proxy probe) (yielded s)) = {p \<in> set order. test_proxy probe p}"
proof -
  from pool_done_order [OF assms] have o: "distinct (yielded s)" "set (yielded s) = set order"
    "length (yielded s) = length order" by auto
  from test_loop_Inr [of 0 "yielded s" "length order" probe cb "[]" ev] o(3) obtain ev' where
    "test_loop probe cb (length order) (yielded s) 0 [] ev =
       Inr (length order, filter (test_proxy probe) (yielded s), ev')" by auto
  with o(1,2) show ?thesis by auto
qed

theorem pool_validation_result_witness:
  "\<exists>ev'. test_loop (\<lambda>p. if p = ''1.1.1.1:80'' then Response 200 [] else RequestError) False 2
      [''2.2.2.2:80'', ''1.1.1.1:80''] 0 [] [] = Inr (2, [''1.1.1.1:80''], ev')"
proof -
  have d: "distinct [''1.1.1.1:80'', ''2.2.2.2:80'']" by simp
  have fin: "pool_done \<lparr>unsubmitted = [], work_queue = [], running = [], finished = [],
      yielded = [''2.2.2.2:80'', ''1.1.1.1:80'']\<rparr>" by (simp add: pool_done_def)
  show ?thesis
    using pool_validation_result [OF d sample_pool_run(2) fin,
        of "\<lambda>p. if p = ''1.1.1.1:80'' then Response 200 [] else RequestError" False "[]"]
    by (simp add: test_proxy_def)
qed

text \<open>
  C23. With at least one worker the \<open>as_completed\<close> loop always ends: from every
  reachable state of the pool, a state in which every future has been handed out is
  reachable, and there each submitted proxy has come out exactly as often as it was
  submitted.
\<close>

theorem pool_completes:
  assumes "0 < w" and "pool_reach w order s"
  shows "\<exists>t. (pool_step w)\<^sup>*\<^sup>* s t \<and> pool_done t \<and> mset (yielded t) = mset order"
  using assms(2)
proof (induction "4 * length order - pool_rank s" arbitrary: s rule: less_induct)
  case (less s)
  show ?case
  proof (cases "pool_done s")
    case True
    with pool_reach_items [OF less.prems] pool_done_items [of s] show ?thesis by auto
  next
    case False
    then obtain t where st: "pool_step w s t" using pool_can_step [OF assms(1)] by blast
    have rt: "pool_reach w order t" using less.prems st by (rule pool_reach.step)
    have "pool_rank t \<le> 4 * length order"
      using pool_reach_length [OF rt] by (simp add: pool_rank_def pool_items_def)
    then have "4 * length order - pool_rank t < 4 * length order - pool_rank s"
      using pool_step_rank [OF st] by simp
    from less.hyps [OF this rt] obtain u where
      "(pool_step w)\<^sup>*\<^sup>* t u" "pool_done u" "mset (yielded u) = mset order" by blast
    with st show ?thesis by (blast intro: converse_rtranclp_into_rtranclp)
  qed
qed

theorem pool_completes_witness:
  "\<exists>t. (pool_step 50)\<^sup>*\<^sup>* (pool_init [''1.1.1.1:80'', ''2.2.2.2:80'']) t \<and> pool_done t \<and>
     mset (yielded t) = mset [''1.1.1.1:80'', ''2.2.2.2:80'']"
  using pool_completes [OF _ pool_reach.init, of 50 "[''1.1.1.1:80'', ''2.2.2.2:80'']"] by simp

text \<open>
  C24. Every step of the pool increases the progress measure, which never exceeds four
  times the number of proxies: every run ends, after at most \<open>4 n\<close> steps.
\<close>

theorem pool_terminates:
  "pool_reach w order s \<Longrightarrow> pool_step w s t \<Longrightarrow>
   pool_rank s < pool_rank t \<and> pool_rank t \<le> 4 * length order"
proof -
  assume r: "pool_reach w order s" and st: "pool_step w s t"
  from r st have rt: "pool_reach w order t" by (rule pool_reach.step)
  have "pool_rank t \<le> 4 * length (pool_items t)" by (simp add: pool_rank_def pool_items_def)
  with pool_reach_length [OF rt] pool_step_rank [OF st] show ?thesis by simp
qed

theorem pool_terminates_witness:
  "pool_rank (pool_init [''1.1.1.1:80'']) <
     pool_rank ((pool_init [''1.1.1.1:80''])\<lparr>unsubmitted := [], work_queue := [''1.1.1.1:80'']\<rparr>) \<and>
   pool_rank ((pool_init [''1.1.1.1:80''])\<lparr>unsubmitted := [], work_queue := [''1.1.1.1:80'']\<rparr>) \<le> 4 * length [''1.1.1.1:80'']"
proof -
  have "pool_step 50 (pool_init [''1.1.1.1:80''])
      ((pool_init [''1.1.1.1:80''])\<lparr>unsubmitted := [], work_queue := [''1.1.1.1:80'']\<rparr>)"
    using pool_step.submit [of "pool_init [''1.1.1.1:80'']" "''1.1.1.1:80''" "[]" 50] by (simp add: pool_init_def)
  from pool_terminates [OF pool_reach.init this] show ?thesis .
qed

end
