(* ===== verification/Render.thy ===== *)
theory Render
  imports Bot
begin

text \<open>
  The texts the bot sends. A Python \<open>str\<close> is a sequence of Unicode code points; the
  templates of src/config.py and the f-strings of src/main.py contain emoji and bullets
  beyond Latin-1, so a text here is a list of code points (\<open>ustr\<close>), and an ASCII or
  Latin-1 literal is converted with \<open>ustr_of\<close>. The theory models \<open>str(int)\<close>,
  \<open>str(timedelta)\<close>, \<open>str.split\<close> and \<open>str.format\<close> with keyword arguments as the
  call sites of main.py use them, and the texts of every message the bot sends; it
  proves that formatting the status template never raises, that the uptime shows the
  elapsed whole seconds and the final report the exact elapsed time, and that distinct
  replies of the message model are distinct texts.
\<close>

section \<open>Decimal integers: \<open>str(int)\<close> and \<open>%0<w>d\<close>\<close>

fun py_str_nat :: "nat \<Rightarrow> ustr" where
  "py_str_nat n = (if n < 10 then [48 + n] else py_str_nat (n div 10) @ [48 + n mod 10])"

declare py_str_nat.simps [simp del]

definition py_str_int :: "int \<Rightarrow> ustr" where
  "py_str_int i = (if i < 0 then 45 # py_str_nat (nat (- i)) else py_str_nat (nat i))"

text \<open>\<open>"%0<w>d" % n\<close> for \<open>n \<ge> 0\<close>: padded with zeros on the left to width \<open>w\<close>.\<close>

definition py_zpad :: "nat \<Rightarrow> nat \<Rightarrow> ustr" where
  "py_zpad w n = replicate (w - length (py_str_nat n)) 48 @ py_str_nat n"

text \<open>Reading the digits back (the decimal value of a digit string; \<open>int()\<close> on it).\<close>

definition digits_val :: "ustr \<Rightarrow> nat" where
  "digits_val ds = foldl (\<lambda>a d. 10 * a + (d - 48)) 0 ds"

definition read_int :: "ustr \<Rightarrow> int" where
  "read_int s = (if s \<noteq> [] \<and> hd s = 45 then - int (digits_val (tl s)) else int (digits_val s))"

section \<open>\<open>str(timedelta)\<close>\<close>

text \<open>
  A \<open>datetime.timedelta\<close> is an integer number of microseconds, normalised by CPython to
  days (any sign), seconds in \<open>[0, 86400)\<close> and microseconds in \<open>[0, 10^6)\<close>;
  \<open>timedelta.__str__\<close> prints \<open>"%d:%02d:%02d"\<close> of hours, minutes and seconds, preceded
  by \<open>"%d day%s, "\<close> when the days are not zero (plural unless \<open>abs(days) == 1\<close>) and
  followed by \<open>".%06d"\<close> of the microseconds when they are not zero.
\<close>

definition td_fields :: "int \<Rightarrow> int \<times> nat \<times> nat" where
  "td_fields t =
     (let r = t mod 86400000000 in (t div 86400000000, nat (r div 1000000), nat (r mod 1000000)))"

definition td_str :: "int \<times> nat \<times> nat \<Rightarrow> ustr" where
  "td_str f =
     (case f of (d, secs, us) \<Rightarrow>
        let hms = py_str_nat (secs div 3600) @ [58] @ py_zpad 2 (secs mod 3600 div 60) @ [58] @
                  py_zpad 2 (secs mod 60);
            s = (if d = 0 then hms
                 else py_str_int d @ ustr_of '' day'' @ (if \<bar>d\<bar> = 1 then [] else ustr_of ''s'') @
                      ustr_of '', '' @ hms)
        in if us = 0 then s else s @ [46] @ py_zpad 6 us)"

definition py_str_timedelta :: "int \<Rightarrow> ustr" where
  "py_str_timedelta t = td_str (td_fields t)"

text \<open>Reading a printed timedelta back (the inverse used by the lemmas below).\<close>

definition read_hms :: "ustr \<Rightarrow> nat" where
  "read_hms s =
     (case py_split 58 s of [h, m, x] \<Rightarrow> digits_val h * 3600 + digits_val m * 60 + digits_val x
      | _ \<Rightarrow> 0)"

definition read_timedelta :: "ustr \<Rightarrow> int" where
  "read_timedelta s =
     (let m = takeWhile (\<lambda>c. c \<noteq> 46) s; us = drop 1 (dropWhile (\<lambda>c. c \<noteq> 46) s);
          (d, hms) = (if 44 \<in> set m
                      then (read_int (takeWhile (\<lambda>c. c \<noteq> 32) m), drop 2 (dropWhile (\<lambda>c. c \<noteq> 44) m))
                      else (0, m))
      in d * 86400000000 + int (read_hms hms) * 1000000 + int (digits_val us))"

section \<open>\<open>str.format\<close> with keyword arguments\<close>

text \<open>
  \<open>template.format(**kw)\<close> as CPython's \<open>MarkupIterator\<close> and \<open>render_field\<close> do it, in
  one left-to-right pass, so that the first error of the template is the one raised:
  \<open>{{\<close> and \<open>}}\<close> are literal braces; a single \<open>}\<close>, or a \<open>{\<close> at the end or without its
  matching \<open>}\<close> (nested braces counted), raises ValueError; a \<open>{\<close> in the field name raises
  ValueError; an empty or all-digit field name refers to a positional argument, of which
  there are none (IndexError); any other name is looked up in the keyword arguments
  (KeyError when absent) and its \<open>str\<close> is inserted. Conversions (\<open>!r\<close>), format
  specifications (\<open>:>8\<close>), attribute and index access and non-ASCII names are outside the
  modelled fragment and give \<open>FmtUnsupported\<close>; the templates of the program use none.
\<close>

datatype format_error = FmtValueError | FmtIndexError | FmtKeyError ustr | FmtUnsupported

fun fmt_field :: "nat \<Rightarrow> ustr \<Rightarrow> (ustr \<times> ustr) option" where
  "fmt_field d [] = None"
| "fmt_field d (c # cs) =
     (if c = 125 \<and> d = 0 then Some ([], cs)
      else map_option (\<lambda>(b, r). (c # b, r))
             (fmt_field (if c = 123 then Suc d else if c = 125 then d - 1 else d) cs))"

definition fmt_lookup :: "(ustr \<Rightarrow> ustr option) \<Rightarrow> ustr \<Rightarrow> format_error + ustr" where
  "fmt_lookup kw b =
     (let n = takeWhile (\<lambda>c. c \<noteq> 33 \<and> c \<noteq> 58) b; n0 = takeWhile (\<lambda>c. c \<noteq> 91) n in
      if 123 \<in> set n0 then Inl FmtValueError
      else if n \<noteq> b \<or> n0 \<noteq> n \<or> 46 \<in> set n \<or> (\<exists>c\<in>set n. 127 < c) then Inl FmtUnsupported
      else if (\<forall>c\<in>set n. 48 \<le> c \<and> c \<le> 57) then Inl FmtIndexError
      else case kw n of None \<Rightarrow> Inl (FmtKeyError n) | Some v \<Rightarrow> Inr v)"

function py_format :: "(ustr \<Rightarrow> ustr option) \<Rightarrow> ustr \<Rightarrow> format_error + ustr" where
  "py_format kw [] = Inr []"
| "py_format kw (c # cs) =
     (if c = 123 then
        (case cs of
           [] \<Rightarrow> Inl FmtValueError
         | c' # cs' \<Rightarrow>
             if c' = 123 then map_sum id (Cons 123) (py_format kw cs')
             else (case fmt_field 0 cs of
                     None \<Rightarrow> Inl FmtValueError
                   | Some (b, r) \<Rightarrow>
                       (case fmt_lookup kw b of
                          Inl e \<Rightarrow> Inl e
                        | Inr v \<Rightarrow> map_sum id (append v) (py_format kw r))))
      else if c = 125 then
        (case cs of
           [] \<Rightarrow> Inl FmtValueError
         | c' # cs' \<Rightarrow> if c' = 125 then map_sum id (Cons 125) (py_format kw cs') else Inl FmtValueError)
      else map_sum id (Cons c) (py_format kw cs))"
  by pat_completeness auto
termination
proof -
  have shorter: "fmt_field d s = Some (b, r) \<Longrightarrow> length r < length s" for d s b r
    by (induction d s arbitrary: b rule: fmt_field.induct) (auto split: if_splits)
  show ?thesis
    by (relation "measure (\<lambda>(kw, s). length s)") (auto dest!: shorter simp del: fmt_field.simps)
qed

text \<open>A template as the sequence of its literal pieces and replacement fields.\<close>

datatype fmt_seg = Lit ustr | Field ustr

fun seg_text :: "fmt_seg \<Rightarrow> ustr" where
  "seg_text (Lit l) = l"
| "seg_text (Field n) = 123 # n @ [125]"

definition plain_name :: "ustr \<Rightarrow> bool" where
  "plain_name n \<longleftrightarrow> n \<noteq> [] \<and> (\<forall>c\<in>set n. c = 95 \<or> (97 \<le> c \<and> c \<le> 122))"

fun seg_ok :: "fmt_seg \<Rightarrow> bool" where
  "seg_ok (Lit l) \<longleftrightarrow> 123 \<notin> set l \<and> 125 \<notin> set l"
| "seg_ok (Field n) \<longleftrightarrow> plain_name n"

fun fmt_render :: "(ustr \<Rightarrow> ustr option) \<Rightarrow> fmt_seg list \<Rightarrow> format_error + ustr" where
  "fmt_render kw [] = Inr []"
| "fmt_render kw (Lit l # ss) = map_sum id (append l) (fmt_render kw ss)"
| "fmt_render kw (Field n # ss) =
     (case kw n of None \<Rightarrow> Inl (FmtKeyError n) | Some v \<Rightarrow> map_sum id (append v) (fmt_render kw ss))"

section \<open>The texts of main.py\<close>

text \<open>
  \<open>update_status_message\<close> (lines 33-44): the uptime is \<open>datetime.now()\<close> minus the
  start time of the run, printed by \<open>str(timedelta)\<close> and cut at the first \<open>'.'\<close>
  (\<open>split('.')[0]\<close>); the status text is \<open>STATUS_MESSAGE.format\<close> of the counters,
  the uptime and \<open>THREAD_COUNT\<close>. Times are integers of microseconds.
\<close>

definition uptime_str :: "int \<Rightarrow> int \<Rightarrow> ustr" where
  "uptime_str now start = hd (py_split 46 (py_str_timedelta (now - start)))"

definition status_kwargs :: "nat \<Rightarrow> nat \<Rightarrow> nat \<Rightarrow> ustr \<Rightarrow> nat \<Rightarrow> ustr \<Rightarrow> ustr option" where
  "status_kwargs v a e up thr =
     map_of [(ustr_of ''views'', py_str_nat v), (ustr_of ''active_proxies'', py_str_nat a),
             (ustr_of ''errors'', py_str_nat e), (ustr_of ''uptime'', up),
             (ustr_of ''threads'', py_str_nat thr)]"

definition status_text :: "stats \<Rightarrow> int \<Rightarrow> int \<Rightarrow> format_error + ustr" where
  "status_text st now start =
     (case get_stats st of (v, e, a) \<Rightarrow>
        py_format (status_kwargs v a e (uptime_str now start) THREAD_COUNT) STATUS_MESSAGE)"

text \<open>The texts of \<open>process_views_task\<close> (U+1F680 rocket, U+274C cross mark,
  U+2705 check mark) and of \<open>message_handler\<close> (U+26A0 U+FE0F warning sign).\<close>

definition init_text :: ustr where
  "init_text = [0x1F680] @ ustr_of '' Initializing view addition process...''"

definition no_proxies_text :: ustr where
  "no_proxies_text = [0x274C] @ ustr_of '' No working proxies found. Please try again later.''"

definition starting_text :: "nat \<Rightarrow> url \<Rightarrow> ustr" where
  "starting_text n post_url =
     [0x1F680] @ ustr_of '' Starting View Addition:'' @ [10] @
     [0x2022] @ ustr_of '' Working Proxies: '' @ py_str_nat n @ [10] @
     [0x2022] @ ustr_of '' Thread Count: '' @ py_str_nat THREAD_COUNT @ [10] @
     [0x2022] @ ustr_of '' Target URL: '' @ ustr_of post_url @ [10, 10] @
     ustr_of ''Starting workers...''"

definition final_text :: "nat \<Rightarrow> nat \<Rightarrow> nat \<Rightarrow> int \<Rightarrow> ustr" where
  "final_text v a e elapsed =
     [10, 0x2705] @ ustr_of '' Task Completed!'' @ [10, 10] @
     [0x1F4CA] @ ustr_of '' Final Statistics:'' @ [10] @
     [0x2022] @ ustr_of '' Total Views Added: '' @ py_str_nat v @ [10] @
     [0x2022] @ ustr_of '' Active Proxies Used: '' @ py_str_nat a @ [10] @
     [0x2022] @ ustr_of '' Errors Encountered: '' @ py_str_nat e @ [10] @
     [0x2022] @ ustr_of '' Total Time: '' @ py_str_timedelta elapsed @ [10]"

definition error_text :: "ustr \<Rightarrow> ustr" where
  "error_text exc = [0x274C] @ ustr_of '' An error occurred: '' @ exc @ [10] @ ustr_of ''Please try again.''"

definition busy_text :: ustr where
  "busy_text =
     [0x26A0, 0xFE0F] @ ustr_of '' You have an active task running. Please wait for it to complete.''"

definition invalid_text :: ustr where
  "invalid_text =
     [0x274C] @ ustr_of '' Invalid URL format. Please send a valid Telegram post URL.'' @ [10] @
     ustr_of ''Example: https://t.me/channel_name/123''"

text \<open>
  The text sent for each reply of the message model (Bot and BotTrace), given what the
  reply leaves out: the time elapsed since the run's start, the post URL and the text of
  the exception.
\<close>

record msg_ctx =
  elapsed :: int
  target :: url
  exc_text :: ustr

fun reply_text :: "msg_ctx \<Rightarrow> reply \<Rightarrow> format_error + ustr" where
  "reply_text c BusyMsg = Inr busy_text"
| "reply_text c InvalidUrlMsg = Inr invalid_text"
| "reply_text c NoProxiesMsg = Inr no_proxies_text"
| "reply_text c (FinalMsg v a e) = Inr (final_text v a e (elapsed c))"
| "reply_text c ErrorMsg = Inr (error_text (exc_text c))"
| "reply_text c WelcomeMsg = Inr WELCOME_MESSAGE"
| "reply_text c (StatusMsg v a e thr) =
     py_format (status_kwargs v a e (uptime_str (elapsed c) 0) thr) STATUS_MESSAGE"
| "reply_text c InitMsg = Inr init_text"
| "reply_text c (StartingMsg n) = Inr (starting_text n (target c))"

text \<open>\<open>STATUS_MESSAGE\<close> cut into its literal pieces and fields.\<close>

definition status_segs :: "fmt_seg list" where
  "status_segs =
     [Lit ([10, 0x1F4CA] @ ustr_of '' Current Status:'' @ [10, 0x2022] @ ustr_of '' Views Added: ''),
      Field (ustr_of ''views''),
      Lit ([10, 0x2022] @ ustr_of '' Active Proxies: ''), Field (ustr_of ''active_proxies''),
      Lit ([10, 0x2022] @ ustr_of '' Errors: ''), Field (ustr_of ''errors''),
      Lit ([10, 0x2022] @ ustr_of '' Uptime: ''), Field (ustr_of ''uptime''),
      Lit ([10, 0x2022] @ ustr_of '' Threads: ''), Field (ustr_of ''threads''),
      Lit ([10, 10, 0x1F504] @ ustr_of '' Process is running...'' @ [10])]"

section \<open>Lemmas on the printed numbers\<close>

lemma py_str_nat_digit: "c \<in> set (py_str_nat n) \<Longrightarrow> 48 \<le> c \<and> c \<le> 57"
proof (induction n rule: py_str_nat.induct)
  case (1 n)
  then show ?case by (subst (asm) py_str_nat.simps) (auto split: if_splits)
qed

lemma notin_py_str_nat [simp]: "c < 48 \<or> 57 < c \<Longrightarrow> c \<notin> set (py_str_nat n)"
  using py_str_nat_digit by fastforce

lemma notin_py_zpad [simp]: "c < 48 \<or> 57 < c \<Longrightarrow> c \<notin> set (py_zpad w n)"
  by (auto simp: py_zpad_def)

lemma notin_py_str_int [simp]: "c < 45 \<or> (45 < c \<and> c < 48) \<or> 57 < c \<Longrightarrow> c \<notin> set (py_str_int i)"
  by (auto simp: py_str_int_def)

lemma py_str_nat_ne [simp]: "py_str_nat n \<noteq> []"
  by (subst py_str_nat.simps) simp

lemma digits_val_py_str_nat [simp]: "digits_val (py_str_nat n) = n"
proof (induction n rule: py_str_nat.induct)
  case (1 n)
  then show ?case by (subst py_str_nat.simps) (simp add: digits_val_def)
qed

lemma digits_val_zeros: "digits_val (replicate k 48 @ s) = digits_val s"
proof -
  have "foldl (\<lambda>a d. 10 * a + (d - 48)) 0 (replicate k (48::nat)) = 0"
    by (induction k) (simp_all add: replicate_app_Cons_same [symmetric])
  then show ?thesis by (simp add: digits_val_def)
qed

lemma digits_val_py_zpad [simp]: "digits_val (py_zpad w n) = n"
  by (simp add: py_zpad_def digits_val_zeros)

lemma read_int_py_str_int [simp]: "read_int (py_str_int i) = i"
proof -
  have "hd (py_str_nat n) \<noteq> 45" for n
    using py_str_nat_digit [of "hd (py_str_nat n)" n] by (auto simp: hd_in_set)
  then have "read_int (py_str_nat n) = int n" for n
    by (simp add: read_int_def)
  then show ?thesis by (simp add: py_str_int_def) (simp add: read_int_def)
qed

section \<open>Lemmas on the printed timedelta\<close>

lemma read_hms_text:
  "read_hms (py_str_nat h @ [58] @ py_zpad 2 m @ [58] @ py_zpad 2 x) = h * 3600 + m * 60 + x"
  by (simp add: read_hms_def py_split_stop py_split_none)

lemma hms_secs: "(secs::nat) div 3600 * 3600 + secs mod 3600 div 60 * 60 + secs mod 60 = secs"
proof -
  have a: "secs div 3600 = secs div 60 div 60" and m: "secs mod 3600 div 60 = secs div 60 mod 60"
    using div_mult2_eq [of secs 60 60] mod_mult2_eq [of secs 60 60] by simp_all
  have "60 * (secs div 60 div 60) + secs div 60 mod 60 = secs div 60"
    and "60 * (secs div 60) + secs mod 60 = secs" by simp_all
  then show ?thesis unfolding a m by linarith
qed

lemma read_timedelta_td_str: "read_timedelta (td_str (d, secs, us)) = d * 86400000000 + int secs * 1000000 + int us"
proof -
  define hms where "hms = py_str_nat (secs div 3600) @ [58] @ py_zpad 2 (secs mod 3600 div 60) @ [58] @
                  py_zpad 2 (secs mod 60)"
  have nodot: "46 \<notin> set hms" "44 \<notin> set hms" by (simp_all add: hms_def)
  have h: "read_hms hms = secs" unfolding hms_def read_hms_text by (rule hms_secs)
  define s where "s = (if d = 0 then hms
                 else py_str_int d @ ustr_of '' day'' @ (if \<bar>d\<bar> = 1 then [] else ustr_of ''s'') @
                      ustr_of '', '' @ hms)"
  have s46: "46 \<notin> set s" using nodot by (simp add: s_def ustr_of_def)
  have t: "td_str (d, secs, us) = (if us = 0 then s else s @ [46] @ py_zpad 6 us)"
    by (simp add: td_str_def hms_def s_def Let_def)
  have m: "takeWhile (\<lambda>c. c \<noteq> 46) (td_str (d, secs, us)) = s"
    and u: "digits_val (drop 1 (dropWhile (\<lambda>c. c \<noteq> 46) (td_str (d, secs, us)))) = us"
    using s46 by (simp_all add: t text_simps) (simp add: digits_val_def)
  have ds: "(if 44 \<in> set s
             then (read_int (takeWhile (\<lambda>c. c \<noteq> 32) s), drop 2 (dropWhile (\<lambda>c. c \<noteq> 44) s))
             else (0, s)) = (d, hms)"
    using nodot by (simp add: s_def ustr_of_def text_simps)
  show ?thesis
    unfolding read_timedelta_def Let_def m u ds using h by simp
qed

lemma td_fields_sound: "(case td_fields t of (d, secs, us) \<Rightarrow> d * 86400000000 + int secs * 1000000 + int us) = t"
proof -
  have "t mod 86400000000 div 1000000 * 1000000 + t mod 86400000000 mod 1000000 = t mod 86400000000"
    by simp
  moreover have "0 \<le> t mod 86400000000 div 1000000" by (simp add: pos_imp_zdiv_nonneg_iff)
  ultimately show ?thesis by (simp add: td_fields_def Let_def)
qed

lemma read_py_str_timedelta: "read_timedelta (py_str_timedelta t) = t"
  using td_fields_sound [of t]
  by (simp add: py_str_timedelta_def read_timedelta_td_str split: prod.splits)

section \<open>Lemmas on \<open>str.format\<close>\<close>

lemma py_format_plain:
  "123 \<notin> set s \<Longrightarrow> 125 \<notin> set s \<Longrightarrow> py_format kw (s @ r) = map_sum id (append s) (py_format kw r)"
  by (induction s; cases "py_format kw r") simp_all

lemma fmt_field_name: "123 \<notin> set n \<Longrightarrow> 125 \<notin> set n \<Longrightarrow> fmt_field 0 (n @ 125 # r) = Some (n, r)"
  by (induction n) auto

lemma fmt_lookup_plain: "plain_name n \<Longrightarrow> fmt_lookup kw n = (case kw n of None \<Rightarrow> Inl (FmtKeyError n) | Some v \<Rightarrow> Inr v)"
proof -
  assume p: "plain_name n"
  then have a: "takeWhile (\<lambda>c. c \<noteq> 33 \<and> c \<noteq> 58) n = n" "takeWhile (\<lambda>c. c \<noteq> 91) n = n"
    by (auto simp: plain_name_def takeWhile_eq_all_conv)
  have b: "123 \<notin> set n" "46 \<notin> set n" "\<not> (\<exists>c\<in>set n. 127 < c)" using p by (auto simp: plain_name_def)
  have c: "\<not> (\<forall>c\<in>set n. 48 \<le> c \<and> c \<le> 57)" using p by (cases n) (auto simp: plain_name_def)
  show ?thesis by (simp add: fmt_lookup_def a b c Let_def split: option.split)
qed

lemma py_format_field:
  assumes "plain_name n"
  shows "py_format kw (123 # n @ 125 # r) =
    (case kw n of None \<Rightarrow> Inl (FmtKeyError n) | Some v \<Rightarrow> map_sum id (append v) (py_format kw r))"
proof -
  have n: "123 \<notin> set n" "125 \<notin> set n" and ne: "n \<noteq> []" using assms by (auto simp: plain_name_def)
  obtain c cs where "n = c # cs" using ne by (cases n) auto
  moreover have "c \<noteq> 123" using n \<open>n = c # cs\<close> by simp
  ultimately show ?thesis
    using fmt_field_name [OF n, of r] fmt_lookup_plain [OF assms, of kw]
    by (simp split: option.split)
qed

lemma py_format_segs:
  "list_all seg_ok ss \<Longrightarrow> py_format kw (concat (map seg_text ss)) = fmt_render kw ss"
proof (induction ss)
  case (Cons s ss)
  show ?case
  proof (cases s)
    case (Lit l)
    then show ?thesis using Cons by (simp add: py_format_plain)
  next
    case (Field n)
    have e: "concat (map seg_text (s # ss)) = 123 # n @ 125 # concat (map seg_text ss)"
      by (simp add: Field)
    have pn: "plain_name n" using Cons.prems Field by simp
    show ?thesis unfolding e py_format_field [OF pn] using Cons Field by (simp split: option.split)
  qed
qed simp

section \<open>Lemmas on the printed timedelta and the uptime\<close>

lemma py_str_nat_eq_iff [simp]: "py_str_nat a = py_str_nat b \<longleftrightarrow> a = b"
  by (metis digits_val_py_str_nat)

lemma td_str_us:
  "td_str (d, secs, us) = (if us = 0 then td_str (d, secs, 0) else td_str (d, secs, 0) @ [46] @ py_zpad 6 us)"
  by (simp add: td_str_def Let_def)

lemma td_str_chars:
  "46 \<notin> set (td_str (d, secs, 0))" "10 \<notin> set (td_str f)"
  by (auto simp: td_str_def Let_def ustr_of_def split: prod.splits)

lemma td_fields_trunc:
  "td_fields (t div 1000000 * 1000000) =
     (case td_fields t of (d, secs, us) \<Rightarrow> (d, secs, 0))"
proof -
  have gen: "(t div M * M) div (M * K) = t div (M * K) \<and>
             (t div M * M) mod (M * K) div M = t mod (M * K) div M \<and>
             (t div M * M) mod (M * K) mod M = 0"
    if "0 < M" "0 < K" for M K :: int
  proof -
    have a: "(t div M * M) mod (M * K) = M * (t div M mod K)"
      by (metis mult.commute mod_mult_mult1)
    have b: "t mod (M * K) = M * (t div M mod K) + t mod M"
      using that by (simp add: zmod_zmult2_eq)
    have c: "(M * (t div M mod K) + t mod M) div M = t div M mod K"
      using that by simp
    show ?thesis
      using that by (simp add: a b c zdiv_zmult2_eq)
  qed
  show ?thesis
    using gen [of 1000000 86400] by (simp add: td_fields_def Let_def)
qed

lemma uptime_str_trunc: "uptime_str now start = py_str_timedelta ((now - start) div 1000000 * 1000000)"
proof -
  obtain d secs us where f: "td_fields (now - start) = (d, secs, us)" by (cases "td_fields (now - start)") auto
  show ?thesis
    using td_str_chars(1) [of d secs] f td_fields_trunc [of "now - start"]
    by (simp add: uptime_str_def py_str_timedelta_def td_str_us [of d secs us] py_split_stop py_split_none)
qed

lemma py_str_timedelta_eq_iff: "py_str_timedelta x = py_str_timedelta y \<longleftrightarrow> x = y"
  by (metis read_py_str_timedelta)

lemma STATUS_MESSAGE_segs: "STATUS_MESSAGE = concat (map seg_text status_segs)" "list_all seg_ok status_segs"
  by (simp_all add: STATUS_MESSAGE_def status_segs_def ustr_of_def plain_name_def)

section \<open>Lemmas on the texts\<close>

lemma status_format:
  "py_format (status_kwargs v a e up thr) STATUS_MESSAGE =
   Inr ([10, 0x1F4CA] @ ustr_of '' Current Status:'' @ [10, 0x2022] @ ustr_of '' Views Added: '' @
        py_str_nat v @ [10, 0x2022] @ ustr_of '' Active Proxies: '' @ py_str_nat a @
        [10, 0x2022] @ ustr_of '' Errors: '' @ py_str_nat e @ [10, 0x2022] @ ustr_of '' Uptime: '' @
        up @ [10, 0x2022] @ ustr_of '' Threads: '' @ py_str_nat thr @
        [10, 10, 0x1F504] @ ustr_of '' Process is running...'' @ [10])"
  unfolding STATUS_MESSAGE_segs(1) py_format_segs [OF STATUS_MESSAGE_segs(2)]
  by (simp add: status_segs_def status_kwargs_def ustr_of_def)

lemma uptime_no_newline: "10 \<notin> set (uptime_str now start)"
  by (simp add: uptime_str_trunc py_str_timedelta_def td_str_chars)

lemma py_str_int_ne [simp]: "py_str_int i \<noteq> []"
  by (simp add: py_str_int_def)

lemma td_str_days: "d \<noteq> 0 \<Longrightarrow> hd (td_str (d, secs, us)) = hd (py_str_int d)"
  by (simp add: td_str_def Let_def)

lemmas text_defs = busy_text_def invalid_text_def no_proxies_text_def final_text_def error_text_def
  WELCOME_MESSAGE_def init_text_def starting_text_def

lemma status_text_reply:
  "status_text st now start =
   reply_text \<lparr>elapsed = now - start, target = u, exc_text = x\<rparr> (update_status_message st)"
  by (simp add: status_text_def update_status_message_def uptime_str_def split: prod.split)

section \<open>Properties of the texts\<close>

text \<open>
  C30. Formatting the status template (\<open>update_status_message\<close>, main.py lines 33-44)
  never raises, and two status texts are equal exactly when they show the same counters
  (views added, errors, active proxies) and the same uptime.
\<close>

theorem status_text_faithful:
  "(\<exists>t. status_text st now start = Inr t) \<and>
   (status_text st now start = status_text st' now' start' \<longleftrightarrow>
    get_stats st = get_stats st' \<and> uptime_str now start = uptime_str now' start')"
proof -
  obtain v e a v' e' a' where g: "get_stats st = (v, e, a)" and g': "get_stats st' = (v', e', a')"
    by (cases "get_stats st", cases "get_stats st'") auto
  have "\<exists>t. status_text st now start = Inr t" by (simp add: status_text_def status_format g)
  moreover have "status_text st now start = status_text st' now' start' \<longleftrightarrow>
    get_stats st = get_stats st' \<and> uptime_str now start = uptime_str now' start'"
    using uptime_no_newline [of now start] uptime_no_newline [of now' start']
    by (simp add: status_text_def status_format g g' ustr_of_def text_simps) blast
  ultimately show ?thesis ..
qed

text \<open>
  C31. The uptime of the status message is the elapsed time cut to whole seconds: two
  uptimes print the same exactly when the elapsed times have the same number of whole
  seconds (rounded down), so \<open>split('.')[0]\<close> removes the microseconds and nothing else.
\<close>

theorem uptime_str_whole_seconds:
  "uptime_str now start = uptime_str now' start' \<longleftrightarrow>
   (now - start) div 1000000 = (now' - start') div 1000000"
  by (simp add: uptime_str_trunc py_str_timedelta_eq_iff)

text \<open>
  C32. Every reply of the message model is sent as a text without error, and distinct
  replies are distinct texts: the abstraction of the bot's messages by \<open>reply\<close> used in
  Bot and BotTrace loses nothing the user sees.
\<close>

theorem reply_text_faithful:
  "(\<exists>t. reply_text c r = Inr t) \<and> (reply_text c r1 = reply_text c r2 \<longleftrightarrow> r1 = r2)"
proof -
  have "10 \<notin> set (uptime_str (elapsed c) 0)" by (rule uptime_no_newline)
  then have "reply_text c r1 = reply_text c r2 \<longleftrightarrow> r1 = r2"
    by (cases r1; cases r2) (simp_all add: text_defs status_format ustr_of_def text_simps)
  moreover have "\<exists>t. reply_text c r = Inr t" by (cases r) (simp_all add: status_format)
  ultimately show ?thesis by blast
qed

text \<open>
  C33. The final report (main.py lines 104-113) shows the counters and the exact elapsed
  time, microseconds included: two final reports are equal exactly when all four are.
\<close>

theorem final_text_exact:
  "final_text v a e t = final_text v' a' e' t' \<longleftrightarrow> v = v' \<and> a = a' \<and> e = e' \<and> t = t'"
proof -
  have "10 \<notin> set (py_str_timedelta x)" for x by (simp add: py_str_timedelta_def td_str_chars)
  then show ?thesis
    by (simp add: final_text_def ustr_of_def py_str_timedelta_eq_iff text_simps)
qed

text \<open>
  C34. The start time of a run is read from the wall clock (\<open>datetime.now()\<close>); when the
  clock is set back below it, the uptime of the status message is negative and printed
  with a negative day count (\<open>"-1 day, 23:59:59"\<close>).
\<close>

theorem uptime_negative:
  "now < start \<Longrightarrow> hd (uptime_str now start) = 45"
proof -
  assume "now < start"
  then have n: "(now - start) div 1000000 * 1000000 < 0" by simp
  obtain d secs us where f: "td_fields ((now - start) div 1000000 * 1000000) = (d, secs, us)"
    by (cases "td_fields ((now - start) div 1000000 * 1000000)") auto
  have "d = (now - start) div 1000000 * 1000000 div 86400000000"
    using f by (simp add: td_fields_def Let_def)
  then have "d < 0" using n by (simp only: pos_imp_zdiv_neg_iff zero_less_numeral)
  then show ?thesis
    using f td_str_days [of d secs us] by (simp add: uptime_str_trunc py_str_timedelta_def py_str_int_def)
qed

theorem uptime_negative_witness:
  "(0::int) < 1000000 \<and> uptime_str 0 1000000 = ustr_of ''-1 day, 23:59:59'' \<and>
   hd (uptime_str 0 1000000) = 45"
proof -
  have "uptime_str 0 1000000 = ustr_of ''-1 day, 23:59:59''"
    by (simp add: uptime_str_trunc py_str_timedelta_def td_fields_def td_str_def py_str_int_def
        py_zpad_def ustr_of_def py_str_nat.simps)
  then show ?thesis using uptime_negative [of 0 1000000] by simp
qed

end
