(* ===== verification/Spec2Isabelle.thy ===== *)
theory Spec2Isabelle
  imports Bot BotTrace Executor Render
begin

text \<open>
  \<^bold>\<open>ViewsBot: a verification development.\<close>

  The program (src/) is a Telegram bot that scrapes public HTTP proxy lists, keeps the
  proxies that answer a probe, and sends one view request through each of them.
  \<^item> src/config.py: constants (\<open>THREAD_COUNT\<close>, \<open>TIMEOUT\<close>, \<open>PROXY_SOURCES\<close>)
    and the templates \<open>WELCOME_MESSAGE\<close> and \<open>STATUS_MESSAGE\<close>.
  \<^item> src/proxy_scrapper.py, class \<open>ProxyScraper\<close>: \<open>fetch_proxy_list\<close> downloads a
    source and extracts \<open>ip:port\<close> strings with \<open>re.findall\<close>; \<open>test_proxy\<close> probes
    one proxy; \<open>scrape\<close> collects all sources into the set \<open>self.proxies\<close> and tests
    every member on a pool of 50 threads, reporting progress to a callback.
  \<^item> src/views_adder.py, class \<open>ViewAdder\<close>: \<open>add_view\<close> sends one request through
    a proxy and updates the counters; \<open>process_views\<close> runs one \<open>add_view\<close> task per
    proxy behind an \<open>asyncio.Semaphore(max_concurrent)\<close> and gathers them.
  \<^item> src/main.py: one module-level \<open>ProxyScraper\<close>, one \<open>ViewAdder\<close> and the dict
    \<open>active_tasks\<close> shared by all chats; \<open>message_handler\<close> checks the chat is not
    busy and the URL is valid (\<open>validate_telegram_url\<close>), then \<open>process_views_task\<close>
    scrapes, dispatches with \<open>THREAD_COUNT\<close> and reports, and its \<open>finally\<close> block
    clears the chat and resets the counters.

  \<^bold>\<open>Theories.\<close>
  \<^item> Prelude: the Python built-ins the code relies on (\<open>str.split\<close>, negative list
    indexing, true division) with their exceptions as values of \<open>py_error\<close>; the
    character classes \<open>\d\<close>, \<open>\w\<close> and \<open>[a-zA-Z0-9_]\<close>; texts of code points
    (\<open>ustr\<close>); shared list lemmas and the collection \<open>text_simps\<close> for cutting and
    comparing texts at a separator.
  \<^item> Regex, ReFindall: the backtracking semantics of the part of Python's \<open>re\<close> used
    here (\<open>mt\<close>, with success continuations), \<open>re.findall\<close> (\<open>findall\<close>, with sre's
    rule that an empty match forces the next search to advance; its termination is a
    measure on the remaining input) and \<open>re.match\<close> (\<open>re_match\<close>).
  \<^item> ProxyScan, ProxyPattern: the endpoint pattern of \<open>fetch_proxy_list\<close>
    (\<open>proxy_pattern\<close>) and a direct scanner (\<open>proxy_scan\<close>); the matcher equals the
    scanner (C9), \<open>findall\<close> returns the endpoints of a list of lines (C10) and only
    well-formed endpoints of the text (C11).
  \<^item> Config: the constants of config.py the behaviour depends on, and the two message
    templates as lists of code points.
  \<^item> ProxyScraper: \<open>fetch_proxy_list\<close>, \<open>test_proxy\<close>, the source loop (\<open>collect\<close>),
    the validation loop (\<open>test_loop\<close>) and \<open>scrape\<close>. The state is the record
    \<open>scraper\<close> (\<open>self.proxies\<close>); the callback's messages are a list of \<open>progress\<close>
    events; an exception is \<open>Inl\<close> together with the state reached. The network is a
    parameter (\<open>net\<close> for sources, \<open>probe\<close> for the probe) and so is the order in which
    the thread pool completes (\<open>sched\<close>, any duplicate-free enumeration of the pool).
    Lemmas: \<open>scrape\<close> raises nothing and returns the passing members once each (C7), the
    pool is the union of the sources (C8) and is never cleared (it keeps earlier runs'
    endpoints, C7), the progress counts lag by one (C19), the pool holds only
    well-formed endpoints (C20, with \<open>is_endpoint\<close> of theory ProxyScan), and a source
    URL without a slash raises \<open>IndexError\<close> out of the source loop (C21).
  \<^item> Executor: the \<open>ThreadPoolExecutor(max_workers=50)\<close> and \<open>as_completed\<close> loop of
    \<open>scrape\<close> as the step relation \<open>pool_step\<close> (submit in set order, FIFO work queue,
    start while fewer than 50 run, finish in any order, hand out a finished future). This
    is the library's semantics, not code of the repository; what it shows of the program
    is the order in which \<open>scrape\<close> sees the results: when the loop ends every proxy came
    out exactly once, so the completion order is a valid \<open>sched\<close> for \<open>scrape\<close> (C22);
    from every reachable state the loop can still end, with every proxy handed out (C23);
    and every run ends (C24).
  \<^item> ViewAdder: the record \<open>stats\<close> and \<open>add_view\<close>, \<open>get_stats\<close>, \<open>reset_stats\<close>;
    \<open>process_views\<close> as the step relation \<open>pv_step\<close> on task states (waiting, in flight,
    counted, released) and a semaphore count, each step one stretch of a task between
    awaits. Lemmas by rule induction over \<open>pv_reach\<close>: the counters account for the
    resolved requests (C1), at most \<open>max_concurrent\<close> are in flight (C2), a finished
    run equals the sequential loop \<open>seq_views\<close> (C3), an unfinished state can step
    (C4) and every step increases a bounded measure (C5), so every run ends; with a limit
    of 0 no run ends (C6); \<open>add_view\<close> counts one outcome (C12).
  \<^item> UrlCheck: \<open>validate_telegram_url\<close> as \<open>re_match\<close> of its pattern, with the
    shape of the accepted strings (C18).
  \<^item> Bot: the bot state (\<open>bot\<close>) and \<open>process_views_task\<close>, \<open>message_handler\<close> run to
    their end, the dispatch taken as the sequential loop (justified by C3); its result
    and clean-up (C13). Then the handlers of several messages
    interleaved at their awaits, \<open>bot_step\<close> over \<open>botc\<close> (shared \<open>active_tasks\<close>,
    counters and the runs with their phases): a second run of a busy chat can start
    (C14), one chat's clean-up wipes another's counters (C15), an idle state is clean
    (C16), a run alone reports its own outcomes (C17) and its status messages show them
    (C25, \<open>update_status_message\<close>). The routing of a text to \<open>start_handler\<close> or
    \<open>message_handler\<close> is \<open>handle_message\<close>.
  \<^item> BotTrace: the same interleaving with the messages it sends and the live status
    tasks (\<open>obs_step\<close>, adding the refusals and the rounds of \<open>status_update_loop\<close>);
    its state part moves by \<open>bot_step\<close>; every run's messages follow the protocol of
    \<open>process_views_task\<close> (C27); nothing follows a final report (C28); the status
    task of a run that fails while dispatching is never cancelled (C29).
  \<^item> Render: the texts the bot sends, as lists of Unicode code points. It models
    \<open>str(int)\<close> (\<open>py_str_nat\<close>), \<open>str(timedelta)\<close> (\<open>py_str_timedelta\<close>, from the
    normalised days, seconds and microseconds), \<open>str.format\<close> with keyword arguments
    (\<open>py_format\<close>, one left-to-right pass raising the first ValueError, IndexError or
    KeyError of the template), and the texts of main.py: the uptime and the status text
    of \<open>update_status_message\<close> (\<open>uptime_str\<close>, \<open>status_text\<close>), the f-strings of
    \<open>process_views_task\<close> and \<open>message_handler\<close>, and \<open>reply_text\<close>, the text of each
    \<open>reply\<close> of Bot and BotTrace. Formatting the status template never raises and its text
    determines the counters and the uptime (C30); the uptime is the elapsed time cut to
    whole seconds (C31); distinct replies are distinct texts (C32); the final report shows
    the exact elapsed time (C33); a wall clock set back gives a negative uptime (C34).
  \<^item> This theory: the components composed (C26). \<open>process_views_task\<close> with the
    completion order of a finished run of the thread pool and the statistics of a
    finished concurrent dispatch replies what the sequential model computes: the
    concurrent program and the model give the same reply and the same state.

  \<^bold>\<open>Bounds and fuel.\<close> No fuel is used: every loop of the program is a structural
  recursion over a list or a \<open>function\<close> with a measure (\<open>findall_from\<close>), and the
  concurrent loops are step relations whose termination is proved with a measure
  (C5, C24). Characters of the URLs and proxy lists are Isabelle's 8-bit \<open>char\<close>, so
  the classes are those of Latin-1, where \<open>\d\<close> is exactly the ASCII digits; message
  texts are lists of code points (\<open>ustr\<close>), since the templates hold emoji. Times are
  integers of microseconds, the resolution of \<open>datetime\<close>.

  \<^bold>\<open>Not modelled.\<close> Logging (the \<open>logger\<close> calls and \<open>logging.basicConfig\<close>
  change no state the program reads); the Telegram API calls themselves (a sent message
  is an \<open>outbox\<close> entry of BotTrace with a \<open>reply\<close>, whose text is \<open>reply_text\<close>); the
  progress texts of the scrape callback (they are \<open>progress\<close> events with their numbers);
  the three-second timer of the status loop (the loop may send at any moment while its
  task lives) and the reading of the clock (times are parameters of the texts); the
  polling entry point \<open>main\<close>; the bot token and the request headers (constants passed
  to libraries); the threads of the executor beyond the order of their work items (the
  workers only run \<open>test_proxy\<close>, which touches no shared state); exceptions of the
  Telegram calls inside \<open>process_views_task\<close>, represented in \<open>bot_step\<close> by the
  \<open>fail\<close> step, and the text of an exception (a parameter of \<open>reply_text\<close>); the
  blocking of the event loop by the synchronous \<open>requests\<close> calls inside \<open>scrape\<close>
  (other handlers step only at its awaits, which \<open>bot_step\<close> allows but does not
  enforce) and the connection limit of aiohttp's session; code points beyond Latin-1 in
  the URLs and proxy lists (the regular expressions are modelled on Latin-1). The network
  is a parameter everywhere: the theorems hold for every answer it gives.
\<close>

section \<open>The components composed\<close>

text \<open>
  C26. The concurrent program computes what the sequential model says: when the
  validation pool has handed out every proxy and the dispatch of the working ones has
  finished, \<open>process_views_task\<close> run with the pool's completion order replies the
  statistics of that concurrent dispatch (or that no proxy works), adds what the
  sources listed to the pool, and clears the chat and the counters.
\<close>

theorem process_views_task_concurrent:
  fixes net :: "url \<Rightarrow> http_result" and probe :: "proxy \<Rightarrow> http_result" and b :: bot
  defines "P \<equiv> proxies (proxy_scraper b) \<union> (\<Union>u\<in>set PROXY_SOURCES. fetch_proxy_list net u)"
  assumes pool: "distinct order" "set order = P" "pool_reach 50 order ps" "pool_done ps"
    and disp: "pv_reach (filter (test_proxy probe) (yielded ps)) THREAD_COUNT (view_adder b) s" "pv_done s"
      "tasks s = map (Released \<circ> view_net) (filter (test_proxy probe) (yielded ps))"
  shows "process_views_task net probe (\<lambda>_. yielded ps) view_net c t b =
    (if filter (test_proxy probe) (yielded ps) = [] then NoProxiesMsg
     else (case get_stats (stats s) of (v, e, a) \<Rightarrow> FinalMsg v a e),
     b\<lparr>active_tasks := (active_tasks b)(c := None), view_adder := reset_stats (view_adder b),
       proxy_scraper := (proxy_scraper b)\<lparr>proxies := P\<rparr>\<rparr>)"
proof -
  let ?ws = "filter (test_proxy probe) (yielded ps)"
  from pool_done_order [OF pool(1,3,4)] pool(2)
  have "distinct ((\<lambda>_. yielded ps) P)" "set ((\<lambda>_. yielded ps) P) = P" by simp_all
  from scrape_eq_at [where sched = "\<lambda>_. yielded ps" and net = net and st = "proxy_scraper b"
      and probe = probe and cb = True, folded P_def, OF this]
  obtain ev where sc: "scrape net probe True (\<lambda>_. yielded ps) (proxy_scraper b) =
      ((proxy_scraper b)\<lparr>proxies := P\<rparr>, Inr (?ws, ev))" by blast
  from pv_done_sequential [OF disp(1,2)] obtain rs where
    rs: "tasks s = map Released rs" "stats s = seq_views ?ws rs (view_adder b)" by blast
  have inj: "inj Released" by (rule injI) simp
  from rs(1) disp(3) have "map Released (map view_net ?ws) = map Released rs" by simp
  then have "map view_net ?ws = rs" unfolding inj_map_eq_map [OF inj] .
  with rs(2) have "stats s = seq_views ?ws (map view_net ?ws) (view_adder b)" by simp
  with process_views_task_scrape [OF sc, of view_net c t] show ?thesis by simp
qed

theorem process_views_task_concurrent_witness:
  "process_views_task (\<lambda>_. Response 200 ''1.2.3.4:80'') (\<lambda>_. Response 200 []) (\<lambda>_. [''1.2.3.4:80''])
     (\<lambda>_. Status 200) 5 0 \<lparr>active_tasks = Map.empty, view_adder = init_stats, proxy_scraper = \<lparr>proxies = {}\<rparr>\<rparr> =
   (FinalMsg 1 1 0, \<lparr>active_tasks = Map.empty, view_adder = init_stats, proxy_scraper = \<lparr>proxies = {''1.2.3.4:80''}\<rparr>\<rparr>)"
proof -
  let ?p = "''1.2.3.4:80''"
  let ?net = "\<lambda>_. Response 200 ''1.2.3.4:80''"
  let ?b = "\<lparr>active_tasks = Map.empty, view_adder = init_stats, proxy_scraper = \<lparr>proxies = {}\<rparr>\<rparr>"
  have f: "findall proxy_pattern ?p = [?p]" by (simp add: findall_proxy_pattern) code_simp
  have P: "proxies (proxy_scraper ?b) \<union> (\<Union>u\<in>set PROXY_SOURCES. fetch_proxy_list ?net u) = {?p}"
    by (simp add: fetch_proxy_list_def f PROXY_SOURCES_def raise_for_status_def)
  have "pool_reach 50 [?p] \<lparr>unsubmitted = [], work_queue = [?p], running = [], finished = [], yielded = []\<rparr>"
    using pool_reach.step [OF pool_reach.init pool_step.submit [of "pool_init [?p]" ?p "[]"]]
    by (simp add: pool_init_def)
  from pool_reach.step [OF this pool_step.start [where p = ?p and q = "[]"]]
  have "pool_reach 50 [?p] \<lparr>unsubmitted = [], work_queue = [], running = [?p], finished = [], yielded = []\<rparr>"
    by simp
  from pool_reach.step [OF this pool_step.finish [where i = 0]]
  have "pool_reach 50 [?p] \<lparr>unsubmitted = [], work_queue = [], running = [], finished = [?p], yielded = []\<rparr>"
    by (simp add: del_at_def)
  from pool_reach.step [OF this pool_step.yield [where i = 0]]
  have pr: "pool_reach 50 [?p] \<lparr>unsubmitted = [], work_queue = [], running = [], finished = [], yielded = [?p]\<rparr>"
    by (simp add: del_at_def)
  have pd: "pool_done \<lparr>unsubmitted = [], work_queue = [], running = [], finished = [], yielded = [?p]\<rparr>"
    by (simp add: pool_done_def)
  have vr: "pv_reach [?p] THREAD_COUNT init_stats
      \<lparr>tasks = [Released (Status 200)], sem = THREAD_COUNT, stats = seq_views [?p] [Status 200] init_stats\<rparr>"
    using pv_reach_sequential [of THREAD_COUNT "[Status 200]" "[?p]" init_stats] by (simp add: THREAD_COUNT_def)
  have vd: "pv_done \<lparr>tasks = [Released (Status 200)], sem = THREAD_COUNT, stats = seq_views [?p] [Status 200] init_stats\<rparr>"
    by (simp add: pv_done_def)
  show ?thesis
    using process_views_task_concurrent [where net = ?net and b = ?b and order = "[?p]"
        and probe = "\<lambda>_. Response 200 []" and view_net = "\<lambda>_. Status 200" and c = 5 and t = 0,
        unfolded P, OF _ _ pr pd _ vd] vr
    by (simp add: get_stats_def init_stats_def add_view_def reset_stats_def test_proxy_def)
qed

end
